theory Spec2Isabelle
  imports Main "HOL-Library.Word"
begin

section \<open>Host primitives and the call log\<close>

text \<open>
  The plugin calls into the uWSGI host for buffers, memory, locking, logging and the
  response. The host is not part of the plugin, so each host call whose result the
  plugin tests is given its outcome by a parameter \<open>ok\<close>: the call made when the log
  holds \<open>k\<close> entries succeeds iff \<open>ok k\<close>. Every call is written to the log, so that
  a theorem can speak about which call failed and about the order of the calls.
\<close>

datatype buffer_id = Ub | Name_buf | Labels_buf | Response

datatype lock_mode = Shared | Exclusive

datatype line =
    Help string string
  | Type string string
  | Metric string string string

datatype event =
    Buffer_new buffer_id bool
  | Append buffer_id bool
  | Malloc bool
  | Lock lock_mode
  | Read_value
  | Unlock
  | Log
  | Line_done line
  | Prepare_headers string bool
  | Add_content_type string bool
  | Add_content_length nat bool
  | Write_body string bool
  | Select bool
  | Accept bool
  | Errno bool
  | Read_request
  | Write_client string
  | Close_client

type_synonym outcomes = "nat \<Rightarrow> bool"

type_synonym 'a run = "event list \<Rightarrow> 'a option \<times> event list"

definition ret :: "'a \<Rightarrow> 'a run" where
  "ret x tr = (Some x, tr)"

definition bnd :: "'a run \<Rightarrow> ('a \<Rightarrow> 'b run) \<Rightarrow> 'b run" where
  "bnd m f tr = (case m tr of (None, tr') \<Rightarrow> (None, tr') | (Some x, tr') \<Rightarrow> f x tr')"

definition always_ok :: outcomes where
  "always_ok k = True"

definition fails_at :: "nat \<Rightarrow> outcomes" where
  "fails_at j k = (k \<noteq> j)"

text \<open>
  \<open>uwsgi_buffer_append(buf, data, len)\<close>: returns non-zero and leaves the buffer as it
  is when it cannot grow; otherwise the bytes are added at the end.
\<close>

definition uwsgi_buffer_append :: "outcomes \<Rightarrow> buffer_id \<Rightarrow> string \<Rightarrow> string \<Rightarrow> string run" where
  "uwsgi_buffer_append ok b buf data tr =
     (if ok (length tr) then (Some (buf @ data), tr @ [Append b True])
      else (None, tr @ [Append b False]))"

text \<open>
  A run of consecutive \<open>if (uwsgi_buffer_append(...)) return -1;\<close> (or \<open>goto error\<close>)
  statements on one buffer: the pieces are appended in order, and the first failure ends
  the run.
\<close>

fun appends :: "outcomes \<Rightarrow> buffer_id \<Rightarrow> string \<Rightarrow> string list \<Rightarrow> string run" where
  "appends ok b buf [] = ret buf"
| "appends ok b buf (d # ds) = bnd (uwsgi_buffer_append ok b buf d) (\<lambda>buf'. appends ok b buf' ds)"

section \<open>prometheus_format_metric_name\<close>

definition is_digit :: "char \<Rightarrow> bool" where
  "is_digit c = (48 \<le> (of_char c :: nat) \<and> (of_char c :: nat) \<le> 57)"

definition is_lower :: "char \<Rightarrow> bool" where
  "is_lower c = (97 \<le> (of_char c :: nat) \<and> (of_char c :: nat) \<le> 122)"

definition is_upper :: "char \<Rightarrow> bool" where
  "is_upper c = (65 \<le> (of_char c :: nat) \<and> (of_char c :: nat) \<le> 90)"

text \<open>The character stored in \<open>segment\<close> for an input character (lines 177-183).\<close>

definition sanitize :: "char \<Rightarrow> char" where
  "sanitize c = (if is_lower c \<or> is_upper c \<or> is_digit c \<or> c = CHR ''_'' then c else CHR ''_'')"

definition label_names :: "string list" where
  "label_names = [''worker'', ''core'', ''thread'', ''id'']"

text \<open>\<open>sizeof(segment)\<close> for \<open>char segment[256]\<close>.\<close>

definition sizeof_segment :: nat where
  "sizeof_segment = 256"

record fmt =
  name_buf :: string
  labels_buf :: string
  segment :: string
  label_index :: nat
  in_numeric_sequence :: bool

text \<open>The \<open>else\<close> branch of the loop body (lines 176-184): one more character of a segment.\<close>

definition store_char :: "char \<Rightarrow> fmt \<Rightarrow> fmt" where
  "store_char c st =
     (if length (segment st) < sizeof_segment - 1
      then st\<lparr>segment := segment st @ [sanitize c]\<rparr>
      else st)"

text \<open>
  The \<open>then\<close> branch of the loop body (lines 144-174), taken at a dot and at the end of
  the name: the segment collected so far becomes a label or a part of the name.
\<close>

definition end_segment :: "outcomes \<Rightarrow> string \<Rightarrow> fmt \<Rightarrow> fmt run" where
  "end_segment ok prefix st =
     (if length (segment st) > 0 then
        (if list_all is_digit (segment st) \<and> length (segment st) > 0 then
           bnd (if label_index st < 4 then
                  bnd (appends ok Labels_buf (labels_buf st)
                         ((if length (labels_buf st) > 0 then ['',''] else []) @
                          [label_names ! label_index st, [CHR ''='', CHR 0x22],
                           segment st, [CHR 0x22]]))
                    (\<lambda>l. ret (st\<lparr>labels_buf := l, label_index := label_index st + 1\<rparr>))
                else ret st)
             (\<lambda>st'. ret (st'\<lparr>in_numeric_sequence := True, segment := []\<rparr>))
         else
           bnd (appends ok Name_buf (name_buf st)
                  ((if length (name_buf st) > length prefix \<and> \<not> in_numeric_sequence st
                    then [''_''] else []) @ [segment st]))
             (\<lambda>n. ret (st\<lparr>name_buf := n, in_numeric_sequence := False, segment := []\<rparr>)))
      else ret st)"

text \<open>
  The loop \<open>for (i = 0; i <= metric_name_len; i++)\<close> over the characters still to be
  read; the empty list is the iteration \<open>i == metric_name_len\<close>.
\<close>

fun format_loop :: "outcomes \<Rightarrow> string \<Rightarrow> string \<Rightarrow> fmt \<Rightarrow> fmt run" where
  "format_loop ok prefix [] st = end_segment ok prefix st"
| "format_loop ok prefix (c # cs) st =
     (if c = CHR ''.'' then bnd (end_segment ok prefix st) (format_loop ok prefix cs)
      else format_loop ok prefix cs (store_char c st))"

text \<open>
  The result is the pair of the contents of \<open>name_buf\<close> and \<open>labels_buf\<close>, both emptied
  at entry (\<open>pos = 0\<close>); \<open>None\<close> is the return value \<open>-1\<close>.
\<close>

definition prometheus_format_metric_name :: "outcomes \<Rightarrow> string \<Rightarrow> string \<Rightarrow> (string \<times> string) run" where
  "prometheus_format_metric_name ok metric_name prefix =
     bnd (appends ok Name_buf [] [prefix])
       (\<lambda>n. bnd (format_loop ok prefix metric_name
                    \<lparr>name_buf = n, labels_buf = [], segment = [], label_index = 0,
                     in_numeric_sequence = False\<rparr>)
               (\<lambda>st. ret (name_buf st, labels_buf st)))"

section \<open>The metrics registry and the configuration\<close>

datatype metric_type =
    UWSGI_METRIC_COUNTER
  | UWSGI_METRIC_GAUGE
  | UWSGI_METRIC_ABSOLUTE
  | UWSGI_METRIC_OTHER

text \<open>
  \<open>UWSGI_METRIC_OTHER\<close> stands for every value of the \<open>type\<close> field that is none of the
  three constants the plugin compares it with (lines 266-273).

  One \<open>struct uwsgi_metric\<close> as the plugin reads it: \<open>um_name\<close> is \<open>None\<close> for a null
  \<open>name\<close> and otherwise the \<open>name_len\<close> bytes at \<open>name\<close>; \<open>um_value\<close> is \<open>None\<close> for a
  null \<open>value\<close> and otherwise the 64-bit integer found there when it is read. The list of
  records is the chain of \<open>next\<close> pointers, the empty list the null pointer.
\<close>

record uwsgi_metric =
  um_name :: "string option"
  um_type :: metric_type
  um_value :: "64 word option"

record uwsgi_server =
  has_metrics :: bool
  metrics :: "uwsgi_metric list"

record ump_config =
  cfg_prefix :: "string option"
  cfg_no_workers :: bool
  cfg_include_help :: bool
  cfg_include_type :: bool
  cfg_server_address :: "string option"
  cfg_server_fd :: int

definition LF :: string where
  "LF = [CHR 0x0A]"

definition CRLF :: string where
  "CRLF = [CHR 0x0D, CHR 0x0A]"

section \<open>The set of seen names\<close>

definition seen_names_create :: "string list" where
  "seen_names_create = []"

fun seen_names_contains :: "string list \<Rightarrow> string \<Rightarrow> bool" where
  "seen_names_contains [] nm = False"
| "seen_names_contains (current # rest) nm =
     (if length current = length nm \<and> current = nm then True
      else seen_names_contains rest nm)"

text \<open>
  \<open>seen_names_add\<close> asks \<open>uwsgi_malloc\<close> for the node and then for the copy of the name;
  when either request returns null it returns the list unchanged.
\<close>

definition seen_names_add :: "outcomes \<Rightarrow> string list \<Rightarrow> string \<Rightarrow> string list run" where
  "seen_names_add ok head nm tr =
     (if \<not> ok (length tr) then (Some head, tr @ [Malloc False])
      else if \<not> ok (Suc (length tr)) then (Some head, tr @ [Malloc True, Malloc False])
      else (Some (nm # head), tr @ [Malloc True, Malloc True]))"

section \<open>prometheus_generate_metrics\<close>

text \<open>
  \<open>uwsgi_buffer_num64\<close> appends a 64-bit signed integer in decimal; in the log it is an
  append like the others.
\<close>

function dec :: "nat \<Rightarrow> string" where
  "dec n = (if n < 10 then [char_of (48 + n)] else dec (n div 10) @ [char_of (48 + n mod 10)])"
  by pat_completeness auto
termination
  by (relation "measure (\<lambda>n. n)") auto

declare dec.simps [simp del]

definition num64 :: "64 word \<Rightarrow> string" where
  "num64 w = (if sint w < 0 then CHR ''-'' # dec (nat (- sint w)) else dec (nat (sint w)))"

definition mark :: "event \<Rightarrow> unit run" where
  "mark e tr = (Some (), tr @ [e])"

definition prom_type :: "metric_type \<Rightarrow> string" where
  "prom_type t =
     (case t of
        UWSGI_METRIC_COUNTER \<Rightarrow> ''counter''
      | UWSGI_METRIC_GAUGE \<Rightarrow> ''gauge''
      | UWSGI_METRIC_ABSOLUTE \<Rightarrow> ''gauge''
      | UWSGI_METRIC_OTHER \<Rightarrow> ''untyped'')"

text \<open>
  Lines 253-288: the comments of a name not seen before. \<open>Line_done\<close> marks in the log
  that a whole line of output has been appended; it is not a call of the program.
\<close>

definition emit_metadata ::
  "outcomes \<Rightarrow> ump_config \<Rightarrow> string list \<Rightarrow> string \<Rightarrow> string \<Rightarrow> string \<Rightarrow> metric_type
     \<Rightarrow> (string \<times> string list) run" where
  "emit_metadata ok cfg seen ub nb raw ty =
     (if \<not> seen_names_contains seen nb then
        bnd (if cfg_include_help cfg then
               bnd (appends ok Ub ub [''# HELP '', nb, '' '', raw, LF])
                 (\<lambda>u. bnd (mark (Line_done (Help nb raw))) (\<lambda>_. ret u))
             else ret ub)
          (\<lambda>ub1.
             bnd (if cfg_include_type cfg then
                    bnd (appends ok Ub ub1 [''# TYPE '', nb, '' '', prom_type ty, LF])
                      (\<lambda>u. bnd (mark (Line_done (Type nb (prom_type ty)))) (\<lambda>_. ret u))
                  else ret ub1)
               (\<lambda>ub2. bnd (seen_names_add ok seen nb) (\<lambda>seen'. ret (ub2, seen'))))
      else ret (ub, seen))"

text \<open>
  Lines 300-302: \<open>uwsgi_rlock(uwsgi.metrics_lock)\<close>, the read of \<open>*um->value\<close>, and
  \<open>uwsgi_rwunlock(uwsgi.metrics_lock)\<close>.
\<close>

definition locked_read :: "64 word \<Rightarrow> 64 word run" where
  "locked_read v tr = (Some v, tr @ [Lock Shared, Read_value, Unlock])"

text \<open>Lines 290-305: the sample line, with the value read under the lock.\<close>

definition emit_sample :: "outcomes \<Rightarrow> string \<Rightarrow> string \<Rightarrow> string \<Rightarrow> 64 word \<Rightarrow> string run" where
  "emit_sample ok ub nb lb v =
     bnd (appends ok Ub ub
            ([nb] @ (if length lb > 0 then [''{'', lb, ''}''] else []) @ ['' '']))
       (\<lambda>u1.
          bnd (locked_read v) (\<lambda>val.
          bnd (appends ok Ub u1 [num64 val, LF]) (\<lambda>u2.
          bnd (mark (Line_done (Metric nb lb (num64 val)))) (\<lambda>_. ret u2))))"

text \<open>
  \<open>if (m < 0) { uwsgi_log(...); um = um->next; continue; }\<close>: when the call \<open>m\<close>
  fails, the failure is logged and the loop goes on with \<open>g\<close>, the rest of the
  registry; otherwise the record is carried on by \<open>f\<close>.
\<close>

definition or_skip :: "'a run \<Rightarrow> ('a \<Rightarrow> 'b run) \<Rightarrow> 'b run \<Rightarrow> 'b run" where
  "or_skip m f g tr = (case m tr of (None, tr1) \<Rightarrow> g (tr1 @ [Log]) | (Some x, tr1) \<Rightarrow> f x tr1)"

text \<open>
  The loop \<open>while (um)\<close> (lines 222-308). \<open>starts_with\<close> is the host's
  \<open>uwsgi_starts_with\<close>, whose integer result the plugin tests for being non-zero.
  \<open>None\<close> is \<open>goto error\<close>.
\<close>

fun metrics_loop ::
  "outcomes \<Rightarrow> (string \<Rightarrow> string \<Rightarrow> int) \<Rightarrow> ump_config \<Rightarrow> string \<Rightarrow> uwsgi_metric list
     \<Rightarrow> string \<times> string list \<Rightarrow> string run" where
  "metrics_loop ok starts_with cfg pfx [] (ub, seen) = ret ub"
| "metrics_loop ok starts_with cfg pfx (um # ums) (ub, seen) =
     (case (um_name um, um_value um) of
        (Some nm, Some v) \<Rightarrow>
          if length nm = 0 then metrics_loop ok starts_with cfg pfx ums (ub, seen)
          else if cfg_no_workers cfg \<and> starts_with nm ''worker.'' \<noteq> 0
          then metrics_loop ok starts_with cfg pfx ums (ub, seen)
          else
            or_skip (prometheus_format_metric_name ok nm pfx)
              (\<lambda>(nb, lb).
                 if length nb = 0 then metrics_loop ok starts_with cfg pfx ums (ub, seen)
                 else
                   or_skip (if um_type um = UWSGI_METRIC_COUNTER
                            then uwsgi_buffer_append ok Name_buf nb ''_total''
                            else ret nb)
                     (\<lambda>nb'.
                        bnd (emit_metadata ok cfg seen ub nb' nm (um_type um))
                          (\<lambda>(ub1, seen1).
                             bnd (emit_sample ok ub1 nb' lb v)
                               (\<lambda>ub2. metrics_loop ok starts_with cfg pfx ums (ub2, seen1))))
                     (metrics_loop ok starts_with cfg pfx ums (ub, seen)))
              (metrics_loop ok starts_with cfg pfx ums (ub, seen))
      | _ \<Rightarrow> metrics_loop ok starts_with cfg pfx ums (ub, seen))"

text \<open>
  The whole pass (lines 191-321): the three buffers are created, the second and the third
  both before either is tested; \<open>None\<close> is the null result.
\<close>

definition prometheus_generate_metrics ::
  "outcomes \<Rightarrow> (string \<Rightarrow> string \<Rightarrow> int) \<Rightarrow> ump_config \<Rightarrow> uwsgi_server \<Rightarrow> string run" where
  "prometheus_generate_metrics ok starts_with cfg uwsgi tr =
     (if \<not> ok (length tr) then (None, tr @ [Buffer_new Ub False, Log])
      else
        let n_ok = ok (Suc (length tr));
            l_ok = ok (Suc (Suc (length tr)));
            tr3 = tr @ [Buffer_new Ub True, Buffer_new Name_buf n_ok, Buffer_new Labels_buf l_ok]
        in if \<not> n_ok \<or> \<not> l_ok then (None, tr3 @ [Log])
           else if \<not> has_metrics uwsgi \<or> metrics uwsgi = [] then (Some [], tr3 @ [Log])
           else metrics_loop ok starts_with cfg
                  (case cfg_prefix cfg of Some p \<Rightarrow> p | None \<Rightarrow> ''uwsgi_'')
                  (metrics uwsgi) ([], seen_names_create) tr3)"

section \<open>The route handler\<close>

datatype route_result =
    UWSGI_ROUTE_NEXT
  | UWSGI_ROUTE_CONTINUE
  | UWSGI_ROUTE_GOON
  | UWSGI_ROUTE_BREAK

text \<open>
  A call of one of the host's response functions (\<open>uwsgi_response_prepare_headers\<close>,
  \<open>uwsgi_response_add_content_type\<close>, \<open>uwsgi_response_add_content_length\<close>,
  \<open>uwsgi_response_write_body_do\<close>): the result is \<open>True\<close> when the host returns zero.
\<close>

definition host_call :: "outcomes \<Rightarrow> (bool \<Rightarrow> event) \<Rightarrow> event list \<Rightarrow> bool \<times> event list" where
  "host_call ok e tr = (ok (length tr), tr @ [e (ok (length tr))])"

definition unavailable_body :: string where
  "unavailable_body = ''Metrics subsystem not initialized. Enable with --enable-metrics'' @ LF"

definition failed_body :: string where
  "failed_body = ''Failed to generate metrics'' @ LF"

definition uwsgi_routing_func_prometheus_metrics ::
  "outcomes \<Rightarrow> (string \<Rightarrow> string \<Rightarrow> int) \<Rightarrow> ump_config \<Rightarrow> uwsgi_server \<Rightarrow> event list
     \<Rightarrow> route_result \<times> event list" where
  "uwsgi_routing_func_prometheus_metrics ok starts_with cfg uwsgi tr =
     (if \<not> has_metrics uwsgi \<or> metrics uwsgi = [] then
        (case host_call ok (Prepare_headers ''503 Service Unavailable'') (tr @ [Log]) of
           (False, tr1) \<Rightarrow> (UWSGI_ROUTE_BREAK, tr1)
         | (True, tr1) \<Rightarrow>
             (UWSGI_ROUTE_BREAK, snd (host_call ok (Write_body unavailable_body) tr1)))
      else
        (case prometheus_generate_metrics ok starts_with cfg uwsgi tr of
           (None, tr1) \<Rightarrow>
             (case host_call ok (Prepare_headers ''500 Internal Server Error'') (tr1 @ [Log]) of
                (False, tr2) \<Rightarrow> (UWSGI_ROUTE_BREAK, tr2)
              | (True, tr2) \<Rightarrow>
                  (UWSGI_ROUTE_BREAK, snd (host_call ok (Write_body failed_body) tr2)))
         | (Some m, tr1) \<Rightarrow>
             (case host_call ok (Prepare_headers ''200 OK'') tr1 of
                (False, tr2) \<Rightarrow> (UWSGI_ROUTE_BREAK, tr2)
              | (True, tr2) \<Rightarrow>
                  (case host_call ok
                          (Add_content_type ''text/plain; version=0.0.4; charset=utf-8'') tr2 of
                     (False, tr3) \<Rightarrow> (UWSGI_ROUTE_BREAK, tr3)
                   | (True, tr3) \<Rightarrow>
                       (case host_call ok (Add_content_length (length m)) tr3 of
                          (False, tr4) \<Rightarrow> (UWSGI_ROUTE_BREAK, tr4)
                        | (True, tr4) \<Rightarrow>
                            (case host_call ok (Write_body m) tr4 of
                               (False, tr5) \<Rightarrow> (UWSGI_ROUTE_BREAK, tr5)
                             | (True, tr5) \<Rightarrow> (UWSGI_ROUTE_BREAK, tr5)))))))"

section \<open>The dedicated server\<close>

text \<open>
  The listening socket as the plugin sees it through \<open>select\<close>, \<open>accept\<close>, \<open>read\<close>,
  \<open>write\<close> and \<open>close\<close>: a queue of connections waiting to be accepted, each with what
  its \<open>read\<close> returns (bytes, end of file, or an error) and the bytes written to it so
  far, and the connections already closed, oldest first. \<open>select\<close> and \<open>accept\<close> are
  host calls like the others and can fail while a connection waits: \<open>select\<close> reports the
  socket readable when it succeeds and the queue is not empty, and \<open>accept\<close>, when it
  succeeds, takes the connection at the front of the queue; when either fails the queue
  stays as it is. A \<open>read\<close> that never returns is not in this model.
\<close>

datatype read_result = Data string | Eof | Read_failed

text \<open>
  \<open>rlen = read(client_fd, request_buf, sizeof(request_buf) - 1)\<close> with
  \<open>char request_buf[4096]\<close>: the number of bytes read, zero at the end of the file,
  negative on an error.
\<close>

definition rlen :: "read_result \<Rightarrow> int" where
  "rlen r = (case r of Data d \<Rightarrow> int (min (length d) 4095) | Eof \<Rightarrow> 0 | Read_failed \<Rightarrow> - 1)"

record client =
  request :: read_result
  received :: string

record world =
  backlog :: "client list"
  closed :: "client list"

definition error_response :: string where
  "error_response =
     ''HTTP/1.0 500 Internal Server Error'' @ CRLF @
     ''Content-Type: text/plain'' @ CRLF @
     ''Content-Length: 28'' @ CRLF @
     CRLF @
     ''Failed to generate metrics'' @ LF"

text \<open>\<open>write(client_fd, ...)\<close>: on a negative result the plugin logs and goes on.\<close>

definition write_client :: "outcomes \<Rightarrow> string \<Rightarrow> client \<Rightarrow> event list \<Rightarrow> client \<times> event list" where
  "write_client ok bytes c tr =
     (if ok (length tr) then (c\<lparr>received := received c @ bytes\<rparr>, tr @ [Write_client bytes])
      else (c, tr @ [Write_client [], Log]))"

definition close_client :: "client \<Rightarrow> world \<Rightarrow> event list \<Rightarrow> world \<times> event list" where
  "close_client c w tr = (w\<lparr>closed := closed w @ [c]\<rparr>, tr @ [Close_client])"

text \<open>
  An append whose result is not tested (lines 387-401): on failure the buffer stays as
  it is and the program goes on.
\<close>

definition append_unchecked :: "outcomes \<Rightarrow> buffer_id \<Rightarrow> string \<Rightarrow> string \<Rightarrow> event list \<Rightarrow> string \<times> event list" where
  "append_unchecked ok b buf data tr =
     (case uwsgi_buffer_append ok b buf data tr of
        (Some buf', tr') \<Rightarrow> (buf', tr')
      | (None, tr') \<Rightarrow> (buf, tr'))"

fun appends_unchecked :: "outcomes \<Rightarrow> buffer_id \<Rightarrow> string \<Rightarrow> string list \<Rightarrow> event list \<Rightarrow> string \<times> event list" where
  "appends_unchecked ok b buf [] tr = (buf, tr)"
| "appends_unchecked ok b buf (d # ds) tr =
     (case append_unchecked ok b buf d tr of (buf', tr') \<Rightarrow> appends_unchecked ok b buf' ds tr')"

text \<open>
  Lines 343-348: \<open>accept\<close> returned a negative number. No connection is taken; the
  plugin tests \<open>errno\<close> and logs unless it is \<open>EINTR\<close>, \<open>EAGAIN\<close> or \<open>EWOULDBLOCK\<close>.
  \<open>Errno x\<close> in the log is that test, \<open>x\<close> being true for one of these three.
\<close>

definition accept_failed :: "outcomes \<Rightarrow> world \<Rightarrow> event list \<Rightarrow> world \<times> event list" where
  "accept_failed ok w tr =
     (if ok (Suc (length tr)) then (w, tr @ [Accept False, Errno True])
      else (w, tr @ [Accept False, Errno False, Log]))"

text \<open>
  Lines 337-417. \<open>accept\<close> fails when no connection waits (the socket does not block,
  line 470) and can fail when one does. The two calls of \<open>fcntl\<close> change how the
  accepted connection is read and leave no entry in the log.
\<close>

definition prometheus_server_handle_request ::
  "outcomes \<Rightarrow> (string \<Rightarrow> string \<Rightarrow> int) \<Rightarrow> ump_config \<Rightarrow> uwsgi_server \<Rightarrow> world \<Rightarrow> event list
     \<Rightarrow> world \<times> event list" where
  "prometheus_server_handle_request ok starts_with cfg uwsgi w tr =
     (case backlog w of
        [] \<Rightarrow> accept_failed ok w tr
      | c # cs \<Rightarrow>
          if \<not> ok (length tr) then accept_failed ok w tr
          else
            let w1 = w\<lparr>backlog := cs\<rparr>; tr1 = tr @ [Accept True, Read_request] in
            if rlen (request c) \<le> 0 then close_client c w1 tr1
            else
              (case prometheus_generate_metrics ok starts_with cfg uwsgi tr1 of
                 (None, tr2) \<Rightarrow>
                   (case write_client ok error_response c tr2 of
                      (c1, tr3) \<Rightarrow> close_client c1 w1 tr3)
               | (Some m, tr2) \<Rightarrow>
                   if \<not> ok (length tr2) then close_client c w1 (tr2 @ [Buffer_new Response False])
                   else
                     (case appends_unchecked ok Response []
                             [''HTTP/1.0 200 OK'' @ CRLF,
                              ''Content-Type: text/plain; version=0.0.4; charset=utf-8'' @ CRLF,
                              ''Content-Length: '',
                              num64 (of_nat (length m)),
                              CRLF,
                              ''Connection: close'' @ CRLF,
                              CRLF]
                             (tr2 @ [Buffer_new Response True]) of
                        (response, tr3) \<Rightarrow>
                          (case write_client ok response c tr3 of
                             (c1, tr4) \<Rightarrow>
                               (case write_client ok m c1 tr4 of
                                  (c2, tr5) \<Rightarrow> close_client c2 w1 tr5)))))"

text \<open>
  Lines 424-439: \<open>select\<close> with a zero timeout; the request is handled only when it
  returns a positive number with the socket in the set.
\<close>

definition prometheus_master_cycle ::
  "outcomes \<Rightarrow> (string \<Rightarrow> string \<Rightarrow> int) \<Rightarrow> ump_config \<Rightarrow> uwsgi_server \<Rightarrow> world \<Rightarrow> event list
     \<Rightarrow> world \<times> event list" where
  "prometheus_master_cycle ok starts_with cfg uwsgi w tr =
     (if cfg_server_fd cfg < 0 then (w, tr)
      else if ok (length tr) \<and> backlog w \<noteq> []
      then prometheus_server_handle_request ok starts_with cfg uwsgi w (tr @ [Select True])
      else (w, tr @ [Select False]))"

section \<open>Notions used to state the properties\<close>

subsection \<open>Dotted names\<close>

text \<open>The segments of a dotted name: the pieces between the dots, empty ones included.\<close>

fun segments :: "string \<Rightarrow> string list" where
  "segments [] = [] # []"
| "segments (c # cs) =
     (if c = CHR ''.'' then [] # segments cs
      else (case segments cs of [] \<Rightarrow> [c] # [] | s # ss \<Rightarrow> (c # s) # ss))"

definition numeric :: "string \<Rightarrow> bool" where
  "numeric s = (s \<noteq> [] \<and> list_all is_digit s)"

text \<open>
  The segments that reach the output: each cut to its first 255 bytes, made of
  \<open>[A-Za-z0-9_]\<close> only, and dropped when empty.
\<close>

definition kept_segments :: "string \<Rightarrow> string list" where
  "kept_segments nm = filter (\<lambda>s. s \<noteq> []) (map (map sanitize) (map (take 255) (segments nm)))"

text \<open>
  The text of a segment that goes into the flat name: nothing for a numeric segment.
\<close>

definition text_only :: "string \<Rightarrow> string option" where
  "text_only s = (if numeric s then None else Some s)"

text \<open>
  Joining the text segments: \<open>sep\<close> holds when the segment before was a text segment,
  and only then an underscore is put in front of the next one.
\<close>

fun flat_text :: "bool \<Rightarrow> string option list \<Rightarrow> string" where
  "flat_text sep [] = []"
| "flat_text sep (None # xs) = flat_text False xs"
| "flat_text sep (Some s # xs) = (if sep then ''_'' else []) @ s @ flat_text True xs"

definition render_label :: "string \<times> string \<Rightarrow> string" where
  "render_label kv = fst kv @ [CHR ''='', CHR 0x22] @ snd kv @ [CHR 0x22]"

fun join_commas :: "string list \<Rightarrow> string" where
  "join_commas [] = []"
| "join_commas [x] = x"
| "join_commas (x # y # ys) = x @ '','' @ join_commas (y # ys)"

text \<open>
  The translation of a list of segments with no limit on their length: the flat name and
  the text of the labels.
\<close>

definition translate_segments :: "string \<Rightarrow> string list \<Rightarrow> string \<times> string" where
  "translate_segments prefix ss =
     (let segs = filter (\<lambda>s. s \<noteq> []) (map (map sanitize) ss)
      in (prefix @ flat_text False (map text_only segs),
          join_commas (map render_label (zip label_names (filter numeric segs)))))"

subsection \<open>Lines of output\<close>

fun lines_of :: "event list \<Rightarrow> line list" where
  "lines_of [] = []"
| "lines_of (Line_done l # es) = l # lines_of es"
| "lines_of (e # es) = lines_of es"

fun render_line :: "line \<Rightarrow> string" where
  "render_line (Help n raw) = ''# HELP '' @ n @ '' '' @ raw @ LF"
| "render_line (Type n t) = ''# TYPE '' @ n @ '' '' @ t @ LF"
| "render_line (Metric n lb v) =
     n @ (if lb = [] then [] else ''{'' @ lb @ ''}'') @ '' '' @ v @ LF"

fun line_name :: "line \<Rightarrow> string" where
  "line_name (Help n raw) = n"
| "line_name (Type n t) = n"
| "line_name (Metric n lb v) = n"

definition help_for :: "string \<Rightarrow> line \<Rightarrow> bool" where
  "help_for n l = (case l of Help m raw \<Rightarrow> m = n | _ \<Rightarrow> False)"

definition type_for :: "string \<Rightarrow> line \<Rightarrow> bool" where
  "type_for n l = (case l of Type m t \<Rightarrow> m = n | _ \<Rightarrow> False)"

definition metric_for :: "string \<Rightarrow> line \<Rightarrow> bool" where
  "metric_for n l = (case l of Metric m lb v \<Rightarrow> m = n | _ \<Rightarrow> False)"

text \<open>
  The comments of the name \<open>n\<close> occur once each, and both before the first sample line
  of \<open>n\<close>.
\<close>

definition metadata_once :: "string \<Rightarrow> line list \<Rightarrow> bool" where
  "metadata_once n ls =
     (length (filter (help_for n) ls) = 1 \<and>
      length (filter (type_for n) ls) = 1 \<and>
      list_ex (help_for n) (takeWhile (\<lambda>l. \<not> metric_for n l) ls) \<and>
      list_ex (type_for n) (takeWhile (\<lambda>l. \<not> metric_for n l) ls))"

subsection \<open>The lock\<close>

text \<open>
  A log keeps the lock discipline when every acquisition is in shared mode and is followed
  at once by the read of one value and the release, and when no other entry (an append, a
  log message, a socket call) stands between an acquisition and its release. At the end the
  lock is free.
\<close>

datatype lock_state = Free | Held | Held_read

fun lock_scan :: "lock_state \<Rightarrow> event list \<Rightarrow> bool" where
  "lock_scan s [] = (s = Free)"
| "lock_scan s (e # es) =
     (case e of
        Lock m \<Rightarrow> s = Free \<and> m = Shared \<and> lock_scan Held es
      | Read_value \<Rightarrow> s = Held \<and> lock_scan Held_read es
      | Unlock \<Rightarrow> s = Held_read \<and> lock_scan Free es
      | _ \<Rightarrow> s = Free \<and> lock_scan Free es)"

definition lock_discipline :: "event list \<Rightarrow> bool" where
  "lock_discipline es = lock_scan Free es"

subsection \<open>The response of the dedicated server\<close>

text \<open>The header that lines 387-401 build for a body of \<open>n\<close> bytes when no append fails.\<close>

definition ok_header :: "nat \<Rightarrow> string" where
  "ok_header n =
     ''HTTP/1.0 200 OK'' @ CRLF @
     ''Content-Type: text/plain; version=0.0.4; charset=utf-8'' @ CRLF @
     ''Content-Length: '' @ num64 (of_nat n) @ CRLF @
     ''Connection: close'' @ CRLF @
     CRLF"

subsection \<open>Inputs of the examples\<close>

text \<open>
  Modelled from the spec: \<open>uwsgi_starts_with\<close>, a function of the uWSGI host that the
  plugin calls and that is not among its sources. Section 4.2, step 2 of the specification
  skips a record "if the raw name starts with \<open>worker.\<close>", and the plugin skips when the
  result is not zero. The theorems below hold for every function in its place; this one is
  used where an example needs a concrete one.
\<close>

definition uwsgi_starts_with :: "string \<Rightarrow> string \<Rightarrow> int" where
  "uwsgi_starts_with src dst = (if take (length dst) src = dst then 1 else 0)"

text \<open>
  The configuration left by \<open>metrics_prometheus_init\<close> (lines 542-547) when no option is
  given, and one with the dedicated server bound to a socket.
\<close>

definition metrics_prometheus_init :: ump_config where
  "metrics_prometheus_init =
     \<lparr>cfg_prefix = None, cfg_no_workers = False, cfg_include_help = True,
      cfg_include_type = True, cfg_server_address = None, cfg_server_fd = - 1\<rparr>"

definition bound :: ump_config where
  "bound = metrics_prometheus_init\<lparr>cfg_server_address := Some '':9091'', cfg_server_fd := 3\<rparr>"

definition disabled :: uwsgi_server where
  "disabled = \<lparr>has_metrics = False, metrics = []\<rparr>"

definition one_gauge :: uwsgi_server where
  "one_gauge = \<lparr>has_metrics = True, metrics =
      [\<lparr>um_name = Some ''a'', um_type = UWSGI_METRIC_GAUGE, um_value = Some 1\<rparr>]\<rparr>"

definition two_a :: uwsgi_server where
  "two_a = \<lparr>has_metrics = True, metrics =
      [\<lparr>um_name = Some ''a'', um_type = UWSGI_METRIC_GAUGE, um_value = Some 1\<rparr>,
       \<lparr>um_name = Some ''a'', um_type = UWSGI_METRIC_GAUGE, um_value = Some 2\<rparr>]\<rparr>"

definition a_b :: uwsgi_server where
  "a_b = \<lparr>has_metrics = True, metrics =
      [\<lparr>um_name = Some ''a'', um_type = UWSGI_METRIC_COUNTER, um_value = Some 1\<rparr>,
       \<lparr>um_name = Some ''b'', um_type = UWSGI_METRIC_GAUGE, um_value = Some 2\<rparr>]\<rparr>"

definition two_workers :: uwsgi_server where
  "two_workers = \<lparr>has_metrics = True, metrics =
      [\<lparr>um_name = Some ''worker.1.requests'', um_type = UWSGI_METRIC_COUNTER, um_value = Some 5\<rparr>,
       \<lparr>um_name = Some ''worker.2.requests'', um_type = UWSGI_METRIC_COUNTER, um_value = Some 7\<rparr>]\<rparr>"

definition scrape :: client where
  "scrape = \<lparr>request = Data ''GET /metrics HTTP/1.0'', received = []\<rparr>"

section \<open>Definitions used in the proofs\<close>

text \<open>
  What \<open>end_segment\<close> and \<open>format_loop\<close> compute when no append fails.
\<close>

definition end_segment_value :: "string \<Rightarrow> fmt \<Rightarrow> fmt" where
  "end_segment_value prefix st =
     (if segment st = [] then st
      else if list_all is_digit (segment st) then
        (if label_index st < 4 then
           st\<lparr>labels_buf := labels_buf st @ (if labels_buf st = [] then [] else '','') @
                   label_names ! label_index st @ [CHR ''='', CHR 0x22] @ segment st @ [CHR 0x22],
              label_index := label_index st + 1, in_numeric_sequence := True, segment := []\<rparr>
         else st\<lparr>in_numeric_sequence := True, segment := []\<rparr>)
      else
        st\<lparr>name_buf := name_buf st @
                (if length prefix < length (name_buf st) \<and> \<not> in_numeric_sequence st then ''_'' else []) @
                segment st,
           in_numeric_sequence := False, segment := []\<rparr>)"

fun format_loop_value :: "string \<Rightarrow> string \<Rightarrow> fmt \<Rightarrow> fmt" where
  "format_loop_value prefix [] st = end_segment_value prefix st"
| "format_loop_value prefix (c # cs) st =
     (if c = CHR ''.'' then format_loop_value prefix cs (end_segment_value prefix st)
      else format_loop_value prefix cs (store_char c st))"

text \<open>A whole stored segment handed to \<open>end_segment_value\<close>, and a segment as it is stored.\<close>

definition seg_step :: "string \<Rightarrow> fmt \<Rightarrow> string \<Rightarrow> fmt" where
  "seg_step p st s = end_segment_value p (st\<lparr>segment := s\<rparr>)"

definition stored :: "string \<Rightarrow> string" where
  "stored s = map sanitize (take (sizeof_segment - 1) s)"

text \<open>The label buffer after the numeric segments \<open>vs\<close>, from index \<open>i\<close> and contents \<open>buf\<close>.\<close>

fun labels_from :: "nat \<Rightarrow> string \<Rightarrow> string list \<Rightarrow> string" where
  "labels_from i buf [] = buf"
| "labels_from i buf (v # vs) =
     (if i < 4
      then labels_from (Suc i)
             (buf @ (if buf = [] then [] else '','') @ render_label (label_names ! i, v)) vs
      else labels_from i buf vs)"

text \<open>
  Entries of the log that leave the lock alone; a stretch of the log that keeps the lock
  discipline and holds no failed creation of a buffer and no failed append to the output.
\<close>

definition lock_free :: "event \<Rightarrow> bool" where
  "lock_free e = (case e of Lock m \<Rightarrow> False | Read_value \<Rightarrow> False | Unlock \<Rightarrow> False | _ \<Rightarrow> True)"

definition good :: "event list \<Rightarrow> bool" where
  "good es = (lock_discipline es \<and> Append Ub False \<notin> set es \<and> (\<forall>b. Buffer_new b False \<notin> set es))"

text \<open>
  A run \<open>obeys\<close> a postcondition when every result comes with a good stretch of log and
  satisfies the postcondition, and every failure ends in a failed append to the output.
\<close>

definition obeys :: "'a run \<Rightarrow> ('a \<Rightarrow> event list \<Rightarrow> bool) \<Rightarrow> bool" where
  "obeys m Q = (\<forall>tr r tr'. m tr = (r, tr') \<longrightarrow>
      (\<exists>es. tr' = tr @ es \<and>
         (case r of Some x \<Rightarrow> good es \<and> Q x es
                  | None \<Rightarrow> (\<exists>es'. es = es' @ [Append Ub False] \<and> good es'))))"

definition metadata_lines :: "ump_config \<Rightarrow> string \<Rightarrow> string \<Rightarrow> metric_type \<Rightarrow> line list" where
  "metadata_lines cfg nb raw ty =
     (if cfg_include_help cfg then [Help nb raw] else []) @
     (if cfg_include_type cfg then [Type nb (prom_type ty)] else [])"

text \<open>Appends to the two name buffers and log messages, and runs that make no other entry.\<close>

definition quiet :: "event \<Rightarrow> bool" where
  "quiet e = (case e of Append b x \<Rightarrow> b \<noteq> Ub | Log \<Rightarrow> True | _ \<Rightarrow> False)"

definition emits :: "'a run \<Rightarrow> bool" where
  "emits m = (\<forall>tr r tr'. m tr = (r, tr') \<longrightarrow> (\<exists>es. tr' = tr @ es \<and> list_all quiet es))"

text \<open>
  The invariant of the loop: the names in the set of seen names have their comments once,
  the others have no line yet.
\<close>

definition covered :: "string list \<Rightarrow> line list \<Rightarrow> bool" where
  "covered seen ls =
     (\<forall>n. (n \<in> set seen \<longrightarrow> metadata_once n ls) \<and>
          (n \<notin> set seen \<longrightarrow> (\<forall>l\<in>set ls. line_name l \<noteq> n)))"

definition loop_post :: "ump_config \<Rightarrow> string \<Rightarrow> string list \<Rightarrow> string \<Rightarrow> event list \<Rightarrow> bool" where
  "loop_post cfg ub seen out es =
     (out = ub @ concat (map render_line (lines_of es)) \<and>
      (cfg_include_help cfg \<longrightarrow> cfg_include_type cfg \<longrightarrow> Malloc False \<notin> set es \<longrightarrow>
         (\<forall>ls. covered seen ls \<longrightarrow> (\<exists>seen'. covered seen' (ls @ lines_of es)))))"

text \<open>The log entries of the three buffers of a pass, all created.\<close>

definition new_buffers :: "event list" where
  "new_buffers = [Buffer_new Ub True, Buffer_new Name_buf True, Buffer_new Labels_buf True]"


definition extends :: "event list \<Rightarrow> event list \<Rightarrow> bool" where
  "extends tr tr' = (\<exists>es. tr' = tr @ es \<and> lock_discipline es)"

section \<open>Lemmas\<close>

lemma appends_Some:
  "appends ok b buf ds tr = (Some r, tr') \<Longrightarrow>
     r = buf @ concat ds \<and> tr' = tr @ replicate (length ds) (Append b True)"
proof (induction ds arbitrary: buf tr)
  case Nil
  then show ?case by (simp add: ret_def)
next
  case (Cons d ds)
  from Cons.prems have ok: "ok (length tr)"
    by (auto simp: bnd_def uwsgi_buffer_append_def split: if_splits)
  with Cons.prems have "appends ok b (buf @ d) ds (tr @ [Append b True]) = (Some r, tr')"
    by (simp add: bnd_def uwsgi_buffer_append_def)
  from Cons.IH[OF this] show ?case by (simp add: replicate_app_Cons_same)
qed

lemma appends_None:
  "appends ok b buf ds tr = (None, tr') \<Longrightarrow>
     \<exists>k<length ds. tr' = tr @ replicate k (Append b True) @ [Append b False]"
proof (induction ds arbitrary: buf tr)
  case Nil
  then show ?case by (simp add: ret_def)
next
  case (Cons d ds)
  show ?case
  proof (cases "ok (length tr)")
    case True
    with Cons.prems have "appends ok b (buf @ d) ds (tr @ [Append b True]) = (None, tr')"
      by (simp add: bnd_def uwsgi_buffer_append_def)
    from Cons.IH[OF this] obtain k where "k < length ds"
      and "tr' = (tr @ [Append b True]) @ replicate k (Append b True) @ [Append b False]" by blast
    then have "Suc k < length (d # ds) \<and> tr' = tr @ replicate (Suc k) (Append b True) @ [Append b False]"
      by simp
    then show ?thesis by blast
  next
    case False
    with Cons.prems have "tr' = tr @ replicate 0 (Append b True) @ [Append b False]"
      by (simp add: bnd_def uwsgi_buffer_append_def)
    then show ?thesis by blast
  qed
qed

lemma appends_all_ok:
  "\<forall>k. ok k \<Longrightarrow> appends ok b buf ds tr = (Some (buf @ concat ds), tr @ replicate (length ds) (Append b True))"
  by (induction ds arbitrary: buf tr) (simp_all add: ret_def bnd_def uwsgi_buffer_append_def replicate_app_Cons_same)

lemma end_segment_Some:
  "end_segment ok p st tr = (Some st', tr') \<Longrightarrow> st' = end_segment_value p st"
  unfolding end_segment_def end_segment_value_def
  by (auto simp: bnd_def ret_def simp del: appends.simps
           split: if_splits prod.splits option.splits dest!: appends_Some)

lemma end_segment_all_ok:
  "\<forall>k. ok k \<Longrightarrow> fst (end_segment ok p st tr) = Some (end_segment_value p st)"
  unfolding end_segment_def end_segment_value_def
  by (simp add: bnd_def ret_def appends_all_ok del: appends.simps)

lemma format_loop_Some:
  "format_loop ok p cs st tr = (Some st', tr') \<Longrightarrow> st' = format_loop_value p cs st"
proof (induction cs arbitrary: st tr)
  case Nil
  then show ?case by (simp add: end_segment_Some)
next
  case (Cons c cs)
  show ?case
  proof (cases "c = CHR ''.''")
    case True
    with Cons.prems obtain st1 tr1 where a: "end_segment ok p st tr = (Some st1, tr1)"
      and b: "format_loop ok p cs st1 tr1 = (Some st', tr')"
      by (auto simp: bnd_def split: prod.splits option.splits)
    from Cons.IH[OF b] end_segment_Some[OF a] True show ?thesis by simp
  next
    case False
    with Cons.prems Cons.IH show ?thesis by simp
  qed
qed

lemma format_loop_all_ok:
  "\<forall>k. ok k \<Longrightarrow> fst (format_loop ok p cs st tr) = Some (format_loop_value p cs st)"
proof (induction cs arbitrary: st tr)
  case Nil
  then show ?case by (simp add: end_segment_all_ok)
next
  case (Cons c cs)
  show ?case
  proof (cases "c = CHR ''.''")
    case True
    obtain r tr1 where e: "end_segment ok p st tr = (r, tr1)" by (cases "end_segment ok p st tr")
    with end_segment_all_ok[OF Cons.prems, of p st tr] have "r = Some (end_segment_value p st)" by simp
    with e True Cons.IH[OF Cons.prems] show ?thesis by (simp add: bnd_def)
  next
    case False
    with Cons show ?thesis by simp
  qed
qed

lemma segments_nonempty: "segments cs \<noteq> []"
  by (induction cs) (auto split: list.splits)

lemma seg_step_same: "seg_step p st (segment st) = end_segment_value p st"
  by (simp add: seg_step_def)

lemma seg_step_store:
  "seg_step p (st\<lparr>segment := x\<rparr>) s = seg_step p st s"
  by (simp add: seg_step_def)

lemma format_loop_value_segments:
  "length (segment st) \<le> sizeof_segment - 1 \<Longrightarrow>
   format_loop_value p cs st =
     foldl (seg_step p) st
       ((segment st @ map sanitize (take (sizeof_segment - 1 - length (segment st)) (hd (segments cs))))
        # map stored (tl (segments cs)))"
proof (induction cs arbitrary: st)
  case Nil
  then show ?case by (simp add: seg_step_same)
next
  case (Cons c cs)
  obtain s ss where sg: "segments cs = s # ss"
    using segments_nonempty[of cs] by (cases "segments cs") auto
  show ?case
  proof (cases "c = CHR ''.''")
    case True
    have seg0: "segment (end_segment_value p st) = []"
      by (simp add: end_segment_value_def)
    have "format_loop_value p (c # cs) st = format_loop_value p cs (end_segment_value p st)"
      using True by simp
    also have "\<dots> = foldl (seg_step p) (end_segment_value p st) (stored s # map stored ss)"
      using Cons.IH[of "end_segment_value p st"] seg0 sg by (simp add: stored_def[abs_def])
    finally show ?thesis using True sg by (simp add: seg_step_same)
  next
    case False
    let ?st1 = "store_char c st"
    have len1: "length (segment ?st1) \<le> sizeof_segment - 1"
      using Cons.prems by (simp add: store_char_def)
    have key: "seg_step p ?st1 (segment ?st1 @ map sanitize (take (sizeof_segment - 1 - length (segment ?st1)) s))
             = seg_step p st (segment st @ map sanitize (take (sizeof_segment - 1 - length (segment st)) (c # s)))"
    proof (cases "length (segment st) < sizeof_segment - 1")
      case True
      then obtain d where d: "sizeof_segment - 1 - length (segment st) = Suc d"
        by (cases "sizeof_segment - 1 - length (segment st)") auto
      then have d': "sizeof_segment - 1 - Suc (length (segment st)) = d" by simp
      show ?thesis using True d d' by (simp add: seg_step_store store_char_def)
    next
      case False
      with Cons.prems have "sizeof_segment - 1 - length (segment st) = 0" by simp
      with False show ?thesis by (simp add: store_char_def)
    qed
    have "format_loop_value p (c # cs) st = format_loop_value p cs ?st1"
      using False by simp
    also have "\<dots> = foldl (seg_step p) ?st1
        ((segment ?st1 @ map sanitize (take (sizeof_segment - 1 - length (segment ?st1)) s)) # map stored ss)"
      using Cons.IH[OF len1] sg by simp
    finally show ?thesis using False sg key by simp
  qed
qed

lemma seg_step_empty: "seg_step p st [] = st\<lparr>segment := []\<rparr>"
  by (simp add: seg_step_def end_segment_value_def)

lemma seg_step_numeric:
  "numeric x \<Longrightarrow> seg_step p st x =
     (if label_index st < 4 then
        st\<lparr>labels_buf := labels_buf st @ (if labels_buf st = [] then [] else '','') @
                render_label (label_names ! label_index st, x),
           label_index := label_index st + 1, in_numeric_sequence := True, segment := []\<rparr>
      else st\<lparr>in_numeric_sequence := True, segment := []\<rparr>)"
  by (simp add: seg_step_def end_segment_value_def numeric_def render_label_def)

lemma seg_step_text:
  "x \<noteq> [] \<Longrightarrow> \<not> numeric x \<Longrightarrow> seg_step p st x =
     st\<lparr>name_buf := name_buf st @
             (if length p < length (name_buf st) \<and> \<not> in_numeric_sequence st then ''_'' else []) @ x,
        in_numeric_sequence := False, segment := []\<rparr>"
  by (simp add: seg_step_def end_segment_value_def numeric_def)

lemma name_buf_foldl:
  "length p \<le> length (name_buf st) \<Longrightarrow>
   name_buf (foldl (seg_step p) st xs) =
     name_buf st @ flat_text (length p < length (name_buf st) \<and> \<not> in_numeric_sequence st)
                     (map text_only (filter (\<lambda>s. s \<noteq> []) xs))"
proof (induction xs arbitrary: st)
  case Nil
  then show ?case by simp
next
  case (Cons x xs)
  consider "x = []" | "numeric x" | "x \<noteq> []" "\<not> numeric x" by blast
  then show ?case
  proof cases
    case 1
    with Cons.IH[of "st\<lparr>segment := []\<rparr>"] Cons.prems show ?thesis
      by (simp add: seg_step_empty)
  next
    case 2
    then have ne: "x \<noteq> []" by (simp add: numeric_def)
    let ?st1 = "seg_step p st x"
    have a: "name_buf ?st1 = name_buf st" and b: "in_numeric_sequence ?st1"
      using 2 by (simp_all add: seg_step_numeric)
    from Cons.IH[of ?st1] Cons.prems a b 2 ne show ?thesis
      by (simp add: text_only_def)
  next
    case 3
    let ?st1 = "seg_step p st x"
    have a: "name_buf ?st1 = name_buf st @
             (if length p < length (name_buf st) \<and> \<not> in_numeric_sequence st then ''_'' else []) @ x"
      and b: "\<not> in_numeric_sequence ?st1"
      using 3 by (simp_all add: seg_step_text)
    obtain y ys where x: "x = y # ys" using 3 by (cases x) auto
    have "length (name_buf ?st1) \<ge> length (name_buf st) + length x" by (simp add: a)
    then have c: "length p < length (name_buf ?st1)" using Cons.prems x by simp
    then have d: "length p \<le> length (name_buf ?st1)" by simp
    from Cons.IH[OF d] a b c 3 show ?thesis
      by (simp add: text_only_def)
  qed
qed

lemma labels_buf_foldl:
  "labels_buf (foldl (seg_step p) st xs) =
     labels_from (label_index st) (labels_buf st) (filter numeric xs)"
proof (induction xs arbitrary: st)
  case Nil
  then show ?case by simp
next
  case (Cons x xs)
  consider "x = []" | "numeric x" | "x \<noteq> []" "\<not> numeric x" by blast
  then show ?case
  proof cases
    case 1
    then show ?thesis using Cons.IH[of "st\<lparr>segment := []\<rparr>"]
      by (simp add: seg_step_empty numeric_def)
  next
    case 2
    then show ?thesis using Cons.IH[of "seg_step p st x"]
      by (simp add: seg_step_numeric)
  next
    case 3
    then show ?thesis using Cons.IH[of "seg_step p st x"]
      by (simp add: seg_step_text)
  qed
qed

lemma join_commas_Cons:
  "join_commas (x # xs) = x @ (if xs = [] then [] else '','' @ join_commas xs)"
  by (cases xs) simp_all

lemma render_label_nonempty: "render_label kv \<noteq> []"
  by (simp add: render_label_def)

lemma labels_from_join:
  "labels_from i buf vs =
     join_commas ((if buf = [] then [] else [buf]) @
                  map render_label (zip (drop i label_names) vs))"
proof (induction vs arbitrary: i buf)
  case Nil
  then show ?case by simp
next
  case (Cons v vs)
  show ?case
  proof (cases "i < 4")
    case True
    then have "i < length label_names" by (simp add: label_names_def)
    then have dr: "drop i label_names = label_names ! i # drop (Suc i) label_names"
      by (rule Cons_nth_drop_Suc[symmetric])
    show ?thesis using True Cons.IH[of "Suc i"] dr
      by (simp add: join_commas_Cons render_label_nonempty)
  next
    case False
    then have "drop i label_names = []" by (simp add: label_names_def)
    with False Cons.IH[of i buf] show ?thesis by simp
  qed
qed

lemma nonempty_numeric: "(x \<noteq> [] \<and> numeric x) = numeric x"
  by (auto simp: numeric_def)

lemma format_value:
  "name_buf st = p \<Longrightarrow> labels_buf st = [] \<Longrightarrow> segment st = [] \<Longrightarrow> label_index st = 0 \<Longrightarrow>
   \<not> in_numeric_sequence st \<Longrightarrow>
   (name_buf (format_loop_value p nm st), labels_buf (format_loop_value p nm st)) =
     translate_segments p (map (take (sizeof_segment - 1)) (segments nm))"
proof -
  assume a: "name_buf st = p" "labels_buf st = []" "segment st = []" "label_index st = 0"
    "\<not> in_numeric_sequence st"
  obtain s ss where sg: "segments nm = s # ss"
    using segments_nonempty[of nm] by (cases "segments nm") auto
  have "format_loop_value p nm st = foldl (seg_step p) st (map stored (segments nm))"
    using format_loop_value_segments[of st p nm] a sg by (simp add: stored_def)
  moreover have "map stored (segments nm) = map (map sanitize) (map (take (sizeof_segment - 1)) (segments nm))"
    by (simp add: stored_def[abs_def] comp_def)
  ultimately show ?thesis
    using a name_buf_foldl[of p st] labels_buf_foldl[of p st]
    by (simp add: translate_segments_def labels_from_join nonempty_numeric)
qed

lemma translator_Some:
  "prometheus_format_metric_name ok nm p tr = (Some r, tr') \<Longrightarrow>
   r = translate_segments p (map (take (sizeof_segment - 1)) (segments nm))"
proof -
  let ?st0 = "\<lparr>name_buf = p, labels_buf = [], segment = [], label_index = 0,
                in_numeric_sequence = False\<rparr>"
  assume h: "prometheus_format_metric_name ok nm p tr = (Some r, tr')"
  then obtain n tr1 st where 1: "appends ok Name_buf [] [p] tr = (Some n, tr1)"
    and 2: "format_loop ok p nm (\<lparr>name_buf = n, labels_buf = [], segment = [], label_index = 0,
                in_numeric_sequence = False\<rparr>) tr1 = (Some st, tr')"
    and 3: "r = (name_buf st, labels_buf st)"
    unfolding prometheus_format_metric_name_def
    by (auto simp: bnd_def ret_def simp del: appends.simps split: prod.splits option.splits)
  from appends_Some[OF 1] have n: "n = p" by simp
  from format_loop_Some[OF 2] n have "st = format_loop_value p nm ?st0" by simp
  with 3 format_value[of ?st0 p nm] show ?thesis by simp
qed

lemma translator_all_ok:
  "\<forall>k. ok k \<Longrightarrow>
   fst (prometheus_format_metric_name ok nm p tr) =
     Some (translate_segments p (map (take (sizeof_segment - 1)) (segments nm)))"
proof -
  let ?st0 = "\<lparr>name_buf = p, labels_buf = [], segment = [], label_index = 0,
                in_numeric_sequence = False\<rparr>"
  assume ok: "\<forall>k. ok k"
  let ?tr1 = "tr @ replicate (length [p]) (Append Name_buf True)"
  have 1: "appends ok Name_buf [] [p] tr = (Some p, ?tr1)"
    using appends_all_ok[OF ok, of Name_buf "[]" "[p]" tr] by simp
  obtain r2 tr2 where 2: "format_loop ok p nm ?st0 ?tr1 = (r2, tr2)"
    by (cases "format_loop ok p nm ?st0 ?tr1")
  with format_loop_all_ok[OF ok, of p nm ?st0 ?tr1] have r2: "r2 = Some (format_loop_value p nm ?st0)"
    by simp
  have "fst (prometheus_format_metric_name ok nm p tr) =
          Some (name_buf (format_loop_value p nm ?st0), labels_buf (format_loop_value p nm ?st0))"
    unfolding prometheus_format_metric_name_def using 1 2 r2
    by (simp add: bnd_def ret_def del: appends.simps)
  with format_value[of ?st0 p nm] show ?thesis by simp
qed

lemma lines_of_append: "lines_of (a @ b) = lines_of a @ lines_of b"
  by (induction a rule: lines_of.induct) simp_all

lemma lock_scan_append:
  "lock_scan s a \<Longrightarrow> lock_scan Free b \<Longrightarrow> lock_scan s (a @ b)"
  by (induction a arbitrary: s) (auto split: event.splits)

lemma lock_discipline_append:
  "lock_discipline a \<Longrightarrow> lock_discipline b \<Longrightarrow> lock_discipline (a @ b)"
  by (simp add: lock_discipline_def lock_scan_append)

lemma lock_discipline_free: "list_all lock_free es \<Longrightarrow> lock_discipline es"
  unfolding lock_discipline_def
  by (induction es) (auto simp: lock_free_def split: event.splits)

lemma good_Nil: "good []" by (simp add: good_def lock_discipline_def)

lemma good_append: "good a \<Longrightarrow> good b \<Longrightarrow> good (a @ b)"
  by (auto simp: good_def lock_discipline_append)

lemma good_replicate: "good (replicate k (Append b True))"
  by (auto simp: good_def intro!: lock_discipline_free simp: list_all_iff lock_free_def)

lemma lines_of_replicate: "lines_of (replicate k (Append b x)) = []"
  by (induction k) simp_all

lemma good_single: "lock_free e \<Longrightarrow> e \<noteq> Append Ub False \<Longrightarrow> (\<forall>b. e \<noteq> Buffer_new b False) \<Longrightarrow> good [e]"
  by (auto simp: good_def intro!: lock_discipline_free)

lemma good_locked: "good [Lock Shared, Read_value, Unlock]"
  by (simp add: good_def lock_discipline_def)

lemma obeysD_Some:
  assumes "obeys m Q" and "m tr = (Some x, tr')"
  shows "\<exists>es. tr' = tr @ es \<and> good es \<and> Q x es"
proof -
  from assms have "\<exists>es. tr' = tr @ es \<and> (case Some x of Some x \<Rightarrow> good es \<and> Q x es
                  | None \<Rightarrow> (\<exists>es'. es = es' @ [Append Ub False] \<and> good es'))"
    unfolding obeys_def by blast
  then show ?thesis by simp
qed

lemma obeysD_None:
  assumes "obeys m Q" and "m tr = (None, tr')"
  shows "\<exists>es. tr' = tr @ es @ [Append Ub False] \<and> good es"
proof -
  from assms have "\<exists>es. tr' = tr @ es \<and> (case (None :: 'a option) of Some x \<Rightarrow> good es \<and> Q x es
                  | None \<Rightarrow> (\<exists>es'. es = es' @ [Append Ub False] \<and> good es'))"
    unfolding obeys_def by blast
  then show ?thesis by auto
qed

lemma obeys_ret: "Q x [] \<Longrightarrow> obeys (ret x) Q"
  by (simp add: obeys_def ret_def good_Nil)

lemma obeysI:
  assumes "\<And>tr x tr'. m tr = (Some x, tr') \<Longrightarrow> \<exists>es. tr' = tr @ es \<and> good es \<and> Q x es"
    and "\<And>tr tr'. m tr = (None, tr') \<Longrightarrow> \<exists>es. tr' = tr @ es @ [Append Ub False] \<and> good es"
  shows "obeys m Q"
  unfolding obeys_def
proof (intro allI impI)
  fix tr r tr'
  assume run: "m tr = (r, tr')"
  show "\<exists>es. tr' = tr @ es \<and>
         (case r of Some x \<Rightarrow> good es \<and> Q x es
                  | None \<Rightarrow> (\<exists>es'. es = es' @ [Append Ub False] \<and> good es'))"
  proof (cases r)
    case None
    with run assms(2) obtain es where "tr' = tr @ es @ [Append Ub False]" "good es" by blast
    with None show ?thesis by simp
  next
    case (Some x)
    with run assms(1) obtain es where "tr' = tr @ es" "good es" "Q x es" by blast
    with Some show ?thesis by simp
  qed
qed

lemma obeys_weaken:
  assumes "obeys m Q" and "\<And>x es. Q x es \<Longrightarrow> R x es"
  shows "obeys m R"
proof (rule obeysI)
  fix tr x tr' assume "m tr = (Some x, tr')"
  from obeysD_Some[OF assms(1) this] assms(2) show "\<exists>es. tr' = tr @ es \<and> good es \<and> R x es" by blast
next
  fix tr tr' assume "m tr = (None, tr')"
  from obeysD_None[OF assms(1) this] show "\<exists>es. tr' = tr @ es @ [Append Ub False] \<and> good es" .
qed

lemma obeys_bnd:
  assumes m: "obeys m Q"
    and f: "\<And>x es1. Q x es1 \<Longrightarrow> obeys (f x) (\<lambda>y es2. R y (es1 @ es2))"
  shows "obeys (bnd m f) R"
  unfolding obeys_def
proof (intro allI impI)
  fix tr r tr'
  assume run: "bnd m f tr = (r, tr')"
  obtain r1 tr1 where m1: "m tr = (r1, tr1)" by (cases "m tr")
  show "\<exists>es. tr' = tr @ es \<and>
         (case r of Some x \<Rightarrow> good es \<and> R x es
                  | None \<Rightarrow> (\<exists>es'. es = es' @ [Append Ub False] \<and> good es'))"
  proof (cases r1)
    case None
    with m1 run have rn: "r = None" "tr' = tr1" by (simp_all add: bnd_def)
    from obeysD_None[OF m] m1 None obtain es0 where "tr1 = tr @ es0 @ [Append Ub False]" "good es0"
      by blast
    with rn show ?thesis by simp
  next
    case (Some x)
    with m1 obeysD_Some[OF m] obtain es1 where e1: "tr1 = tr @ es1" "good es1" "Q x es1" by blast
    from Some m1 run have f1: "f x tr1 = (r, tr')" by (simp add: bnd_def)
    show ?thesis
    proof (cases r)
      case None
      with f1 obeysD_None[OF f[OF e1(3)]] obtain es2 where
        "tr' = tr1 @ es2 @ [Append Ub False]" "good es2" by blast
      with e1 None have "tr' = tr @ (es1 @ es2) @ [Append Ub False]" "good (es1 @ es2)"
        by (simp_all add: good_append)
      with None show ?thesis by simp
    next
      case (Some y)
      with f1 obeysD_Some[OF f[OF e1(3)]] obtain es2 where
        "tr' = tr1 @ es2" "good es2" "R y (es1 @ es2)" by blast
      with e1 Some have "tr' = tr @ (es1 @ es2)" "good (es1 @ es2)" "R y (es1 @ es2)"
        by (simp_all add: good_append)
      with Some show ?thesis by simp
    qed
  qed
qed

lemma obeys_appends_Ub:
  "obeys (appends ok Ub buf ds)
     (\<lambda>r es. r = buf @ concat ds \<and> es = replicate (length ds) (Append Ub True))"
  unfolding obeys_def
proof (intro allI impI)
  fix tr r tr'
  assume run: "appends ok Ub buf ds tr = (r, tr')"
  show "\<exists>es. tr' = tr @ es \<and>
         (case r of Some x \<Rightarrow> good es \<and> (x = buf @ concat ds \<and> es = replicate (length ds) (Append Ub True))
                  | None \<Rightarrow> (\<exists>es'. es = es' @ [Append Ub False] \<and> good es'))"
  proof (cases r)
    case None
    with run appends_None obtain k where "tr' = tr @ replicate k (Append Ub True) @ [Append Ub False]"
      by blast
    with None show ?thesis by (simp add: good_replicate)
  next
    case (Some x)
    with run appends_Some[of ok Ub buf ds tr x tr'] show ?thesis by (simp add: good_replicate)
  qed
qed

lemma obeys_mark:
  "good [e] \<Longrightarrow> Q () [e] \<Longrightarrow> obeys (mark e) Q"
  by (simp add: obeys_def mark_def)

lemma obeys_locked_read: "Q v [Lock Shared, Read_value, Unlock] \<Longrightarrow> obeys (locked_read v) Q"
  by (simp add: obeys_def locked_read_def good_locked)

lemma obeys_seen_names_add:
  "obeys (seen_names_add ok seen nm)
     (\<lambda>s es. lines_of es = [] \<and> (s = seen \<or> s = nm # seen) \<and> (Malloc False \<notin> set es \<longrightarrow> s = nm # seen))"
proof (rule obeysI)
  fix tr x tr' assume "seen_names_add ok seen nm tr = (Some x, tr')"
  then show "\<exists>es. tr' = tr @ es \<and> good es \<and> (lines_of es = [] \<and> (x = seen \<or> x = nm # seen) \<and>
                  (Malloc False \<notin> set es \<longrightarrow> x = nm # seen))"
    by (auto simp: seen_names_add_def good_def lock_discipline_def split: if_splits)
next
  fix tr tr' assume "seen_names_add ok seen nm tr = (None, tr')"
  then show "\<exists>es. tr' = tr @ es @ [Append Ub False] \<and> good es"
    by (simp add: seen_names_add_def split: if_splits)
qed

lemma obeys_mark_line: "obeys (mark (Line_done l)) (\<lambda>_ es. es = [Line_done l])"
  by (rule obeys_mark) (simp_all add: good_single lock_free_def)

lemma obeys_locked: "obeys (locked_read v) (\<lambda>val es. val = v \<and> es = [Lock Shared, Read_value, Unlock])"
  by (rule obeys_locked_read) simp

lemma obeys_emit_sample:
  "obeys (emit_sample ok ub nb lb v)
     (\<lambda>u es. u = ub @ render_line (Metric nb lb (num64 v)) \<and>
              lines_of es = [Metric nb lb (num64 v)] \<and> Malloc False \<notin> set es)"
  unfolding emit_sample_def
  apply (rule obeys_bnd[OF obeys_appends_Ub])
  apply (rule obeys_bnd[OF obeys_locked])
  apply (rule obeys_bnd[OF obeys_appends_Ub])
  apply (rule obeys_bnd[OF obeys_mark_line])
  apply (rule obeys_ret)
  apply (simp add: lines_of_append lines_of_replicate)
  done

lemma obeys_help:
  "obeys (if h then bnd (appends ok Ub ub [''# HELP '', nb, '' '', raw, LF])
                   (\<lambda>u. bnd (mark (Line_done (Help nb raw))) (\<lambda>_. ret u))
          else ret ub)
     (\<lambda>u es. u = ub @ concat (map render_line (lines_of es)) \<and>
              lines_of es = (if h then [Help nb raw] else []) \<and> Malloc False \<notin> set es)"
proof (cases h)
  case True
  show ?thesis unfolding if_P[OF True]
    apply (rule obeys_bnd[OF obeys_appends_Ub])
    apply (rule obeys_bnd[OF obeys_mark_line])
    apply (rule obeys_ret)
    apply (simp add: lines_of_append lines_of_replicate True)
    done
next
  case False
  then show ?thesis by (simp add: obeys_ret)
qed

lemma obeys_type:
  "obeys (if h then bnd (appends ok Ub ub [''# TYPE '', nb, '' '', t, LF])
                   (\<lambda>u. bnd (mark (Line_done (Type nb t))) (\<lambda>_. ret u))
          else ret ub)
     (\<lambda>u es. u = ub @ concat (map render_line (lines_of es)) \<and>
              lines_of es = (if h then [Type nb t] else []) \<and> Malloc False \<notin> set es)"
proof (cases h)
  case True
  show ?thesis unfolding if_P[OF True]
    apply (rule obeys_bnd[OF obeys_appends_Ub])
    apply (rule obeys_bnd[OF obeys_mark_line])
    apply (rule obeys_ret)
    apply (simp add: lines_of_append lines_of_replicate True)
    done
next
  case False
  then show ?thesis by (simp add: obeys_ret)
qed

lemma obeys_emit_metadata:
  "obeys (emit_metadata ok cfg seen ub nb raw ty)
     (\<lambda>r es. fst r = ub @ concat (map render_line (lines_of es)) \<and>
        (if seen_names_contains seen nb
         then lines_of es = [] \<and> snd r = seen
         else lines_of es = metadata_lines cfg nb raw ty \<and>
              (snd r = seen \<or> snd r = nb # seen) \<and>
              (Malloc False \<notin> set es \<longrightarrow> snd r = nb # seen)))"
proof (cases "seen_names_contains seen nb")
  case True
  then show ?thesis by (simp add: emit_metadata_def obeys_ret)
next
  case False
  show ?thesis unfolding emit_metadata_def using False
    apply (simp only: if_True not_False_eq_True simp_thms)
    apply (rule obeys_bnd[OF obeys_help])
    apply (rule obeys_bnd[OF obeys_type])
    apply (rule obeys_bnd[OF obeys_seen_names_add])
    apply (rule obeys_ret)
    apply (auto simp: lines_of_append metadata_lines_def)
    done
qed

lemma emitsD: "emits m \<Longrightarrow> m tr = (r, tr') \<Longrightarrow> \<exists>es. tr' = tr @ es \<and> list_all quiet es"
  unfolding emits_def by blast

lemma emits_ret: "emits (ret x)"
  by (simp add: emits_def ret_def)

lemma emits_bnd:
  assumes "emits m" and "\<And>x. emits (f x)"
  shows "emits (bnd m f)"
  unfolding emits_def
proof (intro allI impI)
  fix tr r tr'
  assume run: "bnd m f tr = (r, tr')"
  obtain r1 tr1 where m1: "m tr = (r1, tr1)" by (cases "m tr")
  from emitsD[OF assms(1) m1] obtain es1 where e1: "tr1 = tr @ es1" "list_all quiet es1" by blast
  show "\<exists>es. tr' = tr @ es \<and> list_all quiet es"
  proof (cases r1)
    case None
    with run m1 have "tr' = tr1" by (simp add: bnd_def)
    with e1 show ?thesis by blast
  next
    case (Some x)
    with run m1 have "f x tr1 = (r, tr')" by (simp add: bnd_def)
    from emitsD[OF assms(2) this] obtain es2 where "tr' = tr1 @ es2" "list_all quiet es2" by blast
    with e1 have "tr' = tr @ (es1 @ es2)" "list_all quiet (es1 @ es2)" by simp_all
    then show ?thesis by blast
  qed
qed

lemma emits_append: "b \<noteq> Ub \<Longrightarrow> emits (uwsgi_buffer_append ok b buf d)"
  by (simp add: emits_def uwsgi_buffer_append_def quiet_def)

lemma emits_appends: "b \<noteq> Ub \<Longrightarrow> emits (appends ok b buf ds)"
  by (induction ds arbitrary: buf) (simp_all add: emits_ret emits_bnd emits_append)

lemma emits_end_segment: "emits (end_segment ok p st)"
  unfolding end_segment_def
  by (simp add: emits_ret emits_bnd emits_appends del: appends.simps)

lemma emits_format_loop: "emits (format_loop ok p cs st)"
  by (induction cs arbitrary: st) (simp_all add: emits_end_segment emits_bnd)

lemma emits_translator: "emits (prometheus_format_metric_name ok nm p)"
  unfolding prometheus_format_metric_name_def
  by (intro emits_bnd emits_appends emits_format_loop emits_ret) simp

lemma quiet_props:
  "quiet e \<Longrightarrow> lock_free e" "quiet e \<Longrightarrow> e \<noteq> Append Ub False"
  "quiet e \<Longrightarrow> e \<noteq> Buffer_new b False" "quiet e \<Longrightarrow> e \<noteq> Malloc False"
  by (cases e; simp add: quiet_def lock_free_def)+

lemma quiet_good:
  assumes "list_all quiet es"
  shows "good es"
proof -
  from assms have q: "\<And>e. e \<in> set es \<Longrightarrow> quiet e" by (simp add: list_all_iff)
  then have "list_all lock_free es" by (simp add: list_all_iff quiet_props)
  then have "lock_discipline es" by (rule lock_discipline_free)
  moreover have "Append Ub False \<notin> set es" using q quiet_props(2) by blast
  moreover have "\<forall>b. Buffer_new b False \<notin> set es" using q quiet_props(3) by blast
  ultimately show ?thesis by (simp add: good_def)
qed

lemma quiet_line: "quiet e \<Longrightarrow> lines_of (e # es) = lines_of es"
  by (cases e) (simp_all add: quiet_def)

lemma quiet_lines: "list_all quiet es \<Longrightarrow> lines_of es = []"
  by (induction es) (simp_all add: quiet_line)

lemma quiet_malloc: "list_all quiet es \<Longrightarrow> Malloc False \<notin> set es"
  using quiet_props(4) by (auto simp: list_all_iff)

lemma obeys_or_skip:
  assumes m: "emits m"
    and f: "\<And>x. obeys (f x) Q"
    and g: "obeys g Q"
    and inv: "\<And>x es0 es. list_all quiet es0 \<Longrightarrow> Q x es \<Longrightarrow> Q x (es0 @ es)"
  shows "obeys (or_skip m f g) Q"
proof -
  have core: "\<exists>es0 h. list_all quiet es0 \<and> obeys h Q \<and> h (tr @ es0) = (r, tr')"
    if run: "or_skip m f g tr = (r, tr')" for tr r tr'
  proof -
    obtain r1 tr1 where m1: "m tr = (r1, tr1)" by (cases "m tr")
    from emitsD[OF m m1] obtain es1 where e1: "tr1 = tr @ es1" "list_all quiet es1" by blast
    show ?thesis
    proof (cases r1)
      case None
      with run m1 e1 have "g (tr @ (es1 @ [Log])) = (r, tr')" by (simp add: or_skip_def)
      moreover have "list_all quiet (es1 @ [Log])" using e1 by (simp add: quiet_def)
      ultimately show ?thesis using g by blast
    next
      case (Some x)
      with run m1 e1 have "f x (tr @ es1) = (r, tr')" by (simp add: or_skip_def)
      with e1 f[of x] show ?thesis by blast
    qed
  qed
  show ?thesis
  proof (rule obeysI)
    fix tr x tr' assume "or_skip m f g tr = (Some x, tr')"
    from core[OF this] obtain es0 h where h: "list_all quiet es0" "obeys h Q" "h (tr @ es0) = (Some x, tr')"
      by blast
    from obeysD_Some[OF h(2,3)] obtain es where "tr' = (tr @ es0) @ es" "good es" "Q x es" by blast
    with h(1) have "tr' = tr @ (es0 @ es)" "good (es0 @ es)" "Q x (es0 @ es)"
      by (simp_all add: good_append quiet_good inv)
    then show "\<exists>es. tr' = tr @ es \<and> good es \<and> Q x es" by blast
  next
    fix tr tr' assume "or_skip m f g tr = (None, tr')"
    from core[OF this] obtain es0 h where h: "list_all quiet es0" "obeys h Q" "h (tr @ es0) = (None, tr')"
      by blast
    from obeysD_None[OF h(2,3)] obtain es where "tr' = (tr @ es0) @ es @ [Append Ub False]" "good es" by blast
    with h(1) have "tr' = tr @ (es0 @ es) @ [Append Ub False]" "good (es0 @ es)"
      by (simp_all add: good_append quiet_good)
    then show "\<exists>es. tr' = tr @ es @ [Append Ub False] \<and> good es" by blast
  qed
qed

lemma for_name:
  "help_for n l \<Longrightarrow> line_name l = n" "type_for n l \<Longrightarrow> line_name l = n"
  "metric_for n l \<Longrightarrow> line_name l = n"
  by (cases l; simp add: help_for_def type_for_def metric_for_def)+

lemma list_ex_takeWhile_append:
  "list_ex Q (takeWhile P xs) \<Longrightarrow> list_ex Q (takeWhile P (xs @ ys))"
proof (induction xs)
  case Nil
  then show ?case by simp
next
  case (Cons x xs)
  then show ?case by (cases "P x") auto
qed

lemma metadata_once_other:
  assumes "metadata_once n ls" and "\<forall>l\<in>set ms. \<not> help_for n l \<and> \<not> type_for n l"
  shows "metadata_once n (ls @ ms)"
proof -
  from assms(2) have "filter (help_for n) ms = []" "filter (type_for n) ms = []"
    by (simp_all add: filter_empty_conv)
  with assms(1) show ?thesis
    by (simp add: metadata_once_def list_ex_takeWhile_append)
qed

lemma metadata_once_new:
  assumes "\<forall>l\<in>set ls. line_name l \<noteq> n"
  shows "metadata_once n (ls @ [Help n raw, Type n t, Metric n lb v])"
proof -
  from assms have a: "filter (help_for n) ls = []" "filter (type_for n) ls = []"
    by (auto simp: filter_empty_conv dest: for_name)
  from assms have b: "\<And>l. l \<in> set ls \<Longrightarrow> \<not> metric_for n l"
    by (auto dest: for_name)
  then have "takeWhile (\<lambda>l. \<not> metric_for n l) (ls @ [Help n raw, Type n t, Metric n lb v])
             = ls @ takeWhile (\<lambda>l. \<not> metric_for n l) [Help n raw, Type n t, Metric n lb v]"
    by (intro takeWhile_append2) simp
  with a show ?thesis
    by (simp add: metadata_once_def help_for_def type_for_def metric_for_def)
qed

lemma covered_seen:
  assumes "covered seen ls" and "nb \<in> set seen"
  shows "covered seen (ls @ [Metric nb lb v])"
  unfolding covered_def
proof (intro allI conjI impI)
  fix n assume "n \<in> set seen"
  with assms(1) have "metadata_once n ls" by (simp add: covered_def)
  then show "metadata_once n (ls @ [Metric nb lb v])"
    by (rule metadata_once_other) (simp add: help_for_def type_for_def)
next
  fix n assume n: "n \<notin> set seen"
  with assms(2) have "n \<noteq> nb" by auto
  with assms(1) n show "\<forall>l\<in>set (ls @ [Metric nb lb v]). line_name l \<noteq> n"
    by (auto simp: covered_def)
qed

lemma covered_new:
  assumes "covered seen ls" and "nb \<notin> set seen"
  shows "covered (nb # seen) (ls @ [Help nb raw, Type nb t, Metric nb lb v])"
  unfolding covered_def
proof (intro allI conjI impI)
  fix n assume n: "n \<in> set (nb # seen)"
  show "metadata_once n (ls @ [Help nb raw, Type nb t, Metric nb lb v])"
  proof (cases "n = nb")
    case True
    with assms show ?thesis by (simp add: covered_def metadata_once_new)
  next
    case False
    with n assms(1) have "metadata_once n ls" by (simp add: covered_def)
    then show ?thesis
      by (rule metadata_once_other) (use False in \<open>auto simp: help_for_def type_for_def\<close>)
  qed
next
  fix n assume n: "n \<notin> set (nb # seen)"
  with assms(1) show "\<forall>l\<in>set (ls @ [Help nb raw, Type nb t, Metric nb lb v]). line_name l \<noteq> n"
    by (auto simp: covered_def)
qed

lemma seen_names_contains_set: "seen_names_contains seen n = (n \<in> set seen)"
  by (induction seen) auto

lemma loop_post_Nil: "loop_post cfg ub seen ub []"
  by (auto simp: loop_post_def)

lemma loop_post_quiet:
  "list_all quiet es0 \<Longrightarrow> loop_post cfg ub seen out es \<Longrightarrow> loop_post cfg ub seen out (es0 @ es)"
  by (simp add: loop_post_def lines_of_append quiet_lines)

lemma loop_post_step:
  assumes md: "fst r = ub @ concat (map render_line (lines_of es1))"
    and md2: "if seen_names_contains seen nb
              then lines_of es1 = [] \<and> snd r = seen
              else lines_of es1 = metadata_lines cfg nb raw ty \<and>
                   (snd r = seen \<or> snd r = nb # seen) \<and>
                   (Malloc False \<notin> set es1 \<longrightarrow> snd r = nb # seen)"
    and sm: "ubb = fst r @ render_line (Metric nb lb v)" "lines_of es2 = [Metric nb lb v]"
    and rest: "loop_post cfg ubb (snd r) out es3"
  shows "loop_post cfg ub seen out (es1 @ es2 @ es3)"
  unfolding loop_post_def
proof (intro conjI impI allI)
  from rest have "out = ubb @ concat (map render_line (lines_of es3))" by (simp add: loop_post_def)
  with md sm show "out = ub @ concat (map render_line (lines_of (es1 @ es2 @ es3)))"
    by (simp add: lines_of_append)
next
  fix ls
  assume h: "cfg_include_help cfg" and t: "cfg_include_type cfg"
    and nm: "Malloc False \<notin> set (es1 @ es2 @ es3)" and cov: "covered seen ls"
  from nm have nm1: "Malloc False \<notin> set es1" and nm3: "Malloc False \<notin> set es3" by simp_all
  from rest h t nm3 have r: "\<And>ls'. covered (snd r) ls' \<Longrightarrow> \<exists>seen'. covered seen' (ls' @ lines_of es3)"
    by (simp add: loop_post_def)
  show "\<exists>seen'. covered seen' (ls @ lines_of (es1 @ es2 @ es3))"
  proof (cases "seen_names_contains seen nb")
    case True
    with md2 have a: "lines_of es1 = []" "snd r = seen" by simp_all
    from True cov have "covered seen (ls @ [Metric nb lb v])"
      by (simp add: covered_seen seen_names_contains_set)
    with a r[of "ls @ [Metric nb lb v]"] sm show ?thesis by (simp add: lines_of_append)
  next
    case False
    with md2 nm1 h t have a: "lines_of es1 = [Help nb raw, Type nb (prom_type ty)]" "snd r = nb # seen"
      by (simp_all add: metadata_lines_def)
    from False cov have "covered (nb # seen) (ls @ [Help nb raw, Type nb (prom_type ty), Metric nb lb v])"
      by (simp add: covered_new seen_names_contains_set)
    with a r[of "ls @ [Help nb raw, Type nb (prom_type ty), Metric nb lb v]"] sm show ?thesis
      by (simp add: lines_of_append)
  qed
qed

lemma emits_suffix:
  "emits (if c then uwsgi_buffer_append ok Name_buf nb ''_total'' else ret nb)"
  by (simp add: emits_append emits_ret)

lemma obeys_record:
  assumes IH: "\<And>ub seen. obeys (metrics_loop ok sw cfg p ums (ub, seen)) (loop_post cfg ub seen)"
  shows "obeys (bnd (emit_metadata ok cfg seen ub nb raw ty)
                  (\<lambda>(ub1, seen1).
                     bnd (emit_sample ok ub1 nb lb v)
                       (\<lambda>ub2. metrics_loop ok sw cfg p ums (ub2, seen1))))
           (loop_post cfg ub seen)"
proof (rule obeys_bnd[OF obeys_emit_metadata])
  fix r es1
  assume md: "fst r = ub @ concat (map render_line (lines_of es1)) \<and>
        (if seen_names_contains seen nb
         then lines_of es1 = [] \<and> snd r = seen
         else lines_of es1 = metadata_lines cfg nb raw ty \<and>
              (snd r = seen \<or> snd r = nb # seen) \<and>
              (Malloc False \<notin> set es1 \<longrightarrow> snd r = nb # seen))"
  obtain ub1 seen1 where r: "r = (ub1, seen1)" by (cases r)
  have "obeys (bnd (emit_sample ok ub1 nb lb v) (\<lambda>ub2. metrics_loop ok sw cfg p ums (ub2, seen1)))
          (\<lambda>y es2. loop_post cfg ub seen y (es1 @ es2))"
  proof (rule obeys_bnd[OF obeys_emit_sample])
    fix ub2 es2
    assume sm: "ub2 = ub1 @ render_line (Metric nb lb (num64 v)) \<and>
                lines_of es2 = [Metric nb lb (num64 v)] \<and> Malloc False \<notin> set es2"
    show "obeys (metrics_loop ok sw cfg p ums (ub2, seen1))
            (\<lambda>y es3. loop_post cfg ub seen y (es1 @ es2 @ es3))"
    proof (rule obeys_weaken[OF IH])
      fix y es3 assume lp: "loop_post cfg ub2 seen1 y es3"
      from md have a: "fst r = ub @ concat (map render_line (lines_of es1))" by simp
      from md have b: "if seen_names_contains seen nb
              then lines_of es1 = [] \<and> snd r = seen
              else lines_of es1 = metadata_lines cfg nb raw ty \<and>
                   (snd r = seen \<or> snd r = nb # seen) \<and>
                   (Malloc False \<notin> set es1 \<longrightarrow> snd r = nb # seen)" by simp
      from sm r have c: "ub2 = fst r @ render_line (Metric nb lb (num64 v))"
        "lines_of es2 = [Metric nb lb (num64 v)]" by simp_all
      from lp r have d: "loop_post cfg ub2 (snd r) y es3" by simp
      show "loop_post cfg ub seen y (es1 @ es2 @ es3)"
        by (rule loop_post_step[OF a b c d])
    qed
  qed
  with r show "obeys (case r of (ub1, seen1) \<Rightarrow>
                 bnd (emit_sample ok ub1 nb lb v) (\<lambda>ub2. metrics_loop ok sw cfg p ums (ub2, seen1)))
          (\<lambda>y es2. loop_post cfg ub seen y (es1 @ es2))"
    by simp
qed

lemma obeys_metrics_loop:
  "obeys (metrics_loop ok sw cfg p ums (ub, seen)) (loop_post cfg ub seen)"
proof (induction ums arbitrary: ub seen)
  case Nil
  show ?case by (simp add: obeys_ret loop_post_Nil)
next
  case (Cons um ums)
  note IH = Cons.IH
  show ?case
  proof (cases "um_name um")
    case None
    then show ?thesis by (simp add: IH)
  next
    case (Some nm)
    note nm = Some
    show ?thesis
    proof (cases "um_value um")
      case None
      with nm show ?thesis by (simp add: IH)
    next
      case (Some v)
      show ?thesis
      proof (cases "length nm = 0 \<or> (cfg_no_workers cfg \<and> sw nm ''worker.'' \<noteq> 0)")
        case True
        with nm Some show ?thesis by (auto simp: IH)
      next
        case False
        have inner: "obeys (case x of (nb, lb) \<Rightarrow>
                 if length nb = 0 then metrics_loop ok sw cfg p ums (ub, seen)
                 else
                   or_skip (if um_type um = UWSGI_METRIC_COUNTER
                            then uwsgi_buffer_append ok Name_buf nb ''_total''
                            else ret nb)
                     (\<lambda>nb'.
                        bnd (emit_metadata ok cfg seen ub nb' nm (um_type um))
                          (\<lambda>(ub1, seen1).
                             bnd (emit_sample ok ub1 nb' lb v)
                               (\<lambda>ub2. metrics_loop ok sw cfg p ums (ub2, seen1))))
                     (metrics_loop ok sw cfg p ums (ub, seen)))
              (loop_post cfg ub seen)" for x
        proof (cases x)
          case (Pair nb lb)
          show ?thesis
          proof (cases "length nb = 0")
            case True
            with Pair show ?thesis by (simp add: IH)
          next
            case False
            have "obeys (or_skip (if um_type um = UWSGI_METRIC_COUNTER
                            then uwsgi_buffer_append ok Name_buf nb ''_total''
                            else ret nb)
                     (\<lambda>nb'.
                        bnd (emit_metadata ok cfg seen ub nb' nm (um_type um))
                          (\<lambda>(ub1, seen1).
                             bnd (emit_sample ok ub1 nb' lb v)
                               (\<lambda>ub2. metrics_loop ok sw cfg p ums (ub2, seen1))))
                     (metrics_loop ok sw cfg p ums (ub, seen)))
                   (loop_post cfg ub seen)"
              by (rule obeys_or_skip[OF emits_suffix obeys_record[OF IH] IH loop_post_quiet])
            with Pair False show ?thesis by simp
          qed
        qed
        have "obeys (or_skip (prometheus_format_metric_name ok nm p)
              (\<lambda>x. case x of (nb, lb) \<Rightarrow>
                 if length nb = 0 then metrics_loop ok sw cfg p ums (ub, seen)
                 else
                   or_skip (if um_type um = UWSGI_METRIC_COUNTER
                            then uwsgi_buffer_append ok Name_buf nb ''_total''
                            else ret nb)
                     (\<lambda>nb'.
                        bnd (emit_metadata ok cfg seen ub nb' nm (um_type um))
                          (\<lambda>(ub1, seen1).
                             bnd (emit_sample ok ub1 nb' lb v)
                               (\<lambda>ub2. metrics_loop ok sw cfg p ums (ub2, seen1))))
                     (metrics_loop ok sw cfg p ums (ub, seen)))
              (metrics_loop ok sw cfg p ums (ub, seen)))
            (loop_post cfg ub seen)"
          by (rule obeys_or_skip[OF emits_translator inner IH loop_post_quiet])
        with nm Some False show ?thesis by auto
      qed
    qed
  qed
qed

lemma generate_Some:
  assumes "prometheus_generate_metrics ok sw cfg uwsgi tr = (Some out, tr')"
  shows "\<exists>es. tr' = tr @ new_buffers @ es \<and> good es \<and> loop_post cfg [] [] out es"
proof -
  from assms have oks: "ok (length tr)" "ok (Suc (length tr))" "ok (Suc (Suc (length tr)))"
    by (auto simp: prometheus_generate_metrics_def Let_def split: if_splits)
  show ?thesis
  proof (cases "\<not> has_metrics uwsgi \<or> metrics uwsgi = []")
    case True
    with assms oks have "tr' = tr @ new_buffers @ [Log]" "out = []"
      by (auto simp: prometheus_generate_metrics_def Let_def new_buffers_def)
    moreover have "good [Log]" by (simp add: good_single lock_free_def)
    moreover have "loop_post cfg [] [] [] [Log]" by (auto simp: loop_post_def)
    ultimately show ?thesis by blast
  next
    case False
    with assms oks have "metrics_loop ok sw cfg (case cfg_prefix cfg of Some p \<Rightarrow> p | None \<Rightarrow> ''uwsgi_'')
                  (metrics uwsgi) ([], seen_names_create) (tr @ new_buffers) = (Some out, tr')"
      by (auto simp: prometheus_generate_metrics_def Let_def new_buffers_def)
    from obeysD_Some[OF obeys_metrics_loop this] show ?thesis
      by (auto simp: seen_names_create_def)
  qed
qed

lemma generate_None:
  assumes "prometheus_generate_metrics ok sw cfg uwsgi tr = (None, tr')"
  shows "(\<exists>es. tr' = tr @ es @ [Log] \<and> list_all lock_free es \<and> (\<exists>b. Buffer_new b False \<in> set es)
               \<and> Append Ub False \<notin> set es)
         \<or> (\<exists>es. tr' = tr @ new_buffers @ es @ [Append Ub False] \<and> good es)"
proof (cases "ok (length tr) \<and> ok (Suc (length tr)) \<and> ok (Suc (Suc (length tr)))")
  case True
  with assms have un: "\<not> (\<not> has_metrics uwsgi \<or> metrics uwsgi = [])"
    by (auto simp: prometheus_generate_metrics_def Let_def split: if_splits)
  with assms True have "metrics_loop ok sw cfg (case cfg_prefix cfg of Some p \<Rightarrow> p | None \<Rightarrow> ''uwsgi_'')
                  (metrics uwsgi) ([], seen_names_create) (tr @ new_buffers) = (None, tr')"
    by (auto simp: prometheus_generate_metrics_def Let_def new_buffers_def)
  from obeysD_None[OF obeys_metrics_loop this] show ?thesis by auto
next
  case False
  show ?thesis
  proof (cases "ok (length tr)")
    case False
    with assms have "tr' = tr @ [Buffer_new Ub False] @ [Log]"
      by (simp add: prometheus_generate_metrics_def)
    moreover have "list_all lock_free [Buffer_new Ub False]" by (simp add: lock_free_def)
    ultimately show ?thesis by (intro disjI1 exI[of _ "[Buffer_new Ub False]"]) auto
  next
    case True
    let ?es = "[Buffer_new Ub True, Buffer_new Name_buf (ok (Suc (length tr))),
                Buffer_new Labels_buf (ok (Suc (Suc (length tr))))]"
    from True False assms have "tr' = tr @ ?es @ [Log]"
      by (auto simp: prometheus_generate_metrics_def Let_def)
    moreover have "list_all lock_free ?es" by (simp add: lock_free_def)
    moreover from True False have "\<exists>b. Buffer_new b False \<in> set ?es" by auto
    ultimately show ?thesis by (intro disjI1 exI[of _ ?es]) auto
  qed
qed

lemma good_new_buffers: "good new_buffers"
  by (simp add: good_def new_buffers_def lock_discipline_def)

lemma generate_lock:
  "\<exists>es. snd (prometheus_generate_metrics ok sw cfg uwsgi tr) = tr @ es \<and> lock_discipline es"
proof -
  obtain r tr' where run: "prometheus_generate_metrics ok sw cfg uwsgi tr = (r, tr')"
    by (cases "prometheus_generate_metrics ok sw cfg uwsgi tr")
  have fail: "lock_discipline [Append Ub False]" by (simp add: lock_discipline_def)
  have lg: "lock_discipline [Log]" by (simp add: lock_discipline_def)
  show ?thesis
  proof (cases r)
    case (Some out)
    with run generate_Some obtain es where "tr' = tr @ new_buffers @ es" "good es" by blast
    with good_new_buffers have "tr' = tr @ (new_buffers @ es)" "lock_discipline (new_buffers @ es)"
      by (simp_all add: good_def lock_discipline_append)
    with run show ?thesis by auto
  next
    case None
    with run generate_None[of ok sw cfg uwsgi tr tr'] consider
      (a) es where "tr' = tr @ es @ [Log]" "list_all lock_free es"
      | (b) es where "tr' = tr @ new_buffers @ es @ [Append Ub False]" "good es"
      by blast
    then show ?thesis
    proof cases
      case a
      then have "tr' = tr @ (es @ [Log])" "lock_discipline (es @ [Log])"
        by (simp_all add: lock_discipline_append lock_discipline_free lg)
      with run show ?thesis by auto
    next
      case b
      then have "tr' = tr @ (new_buffers @ es @ [Append Ub False])"
        "lock_discipline (new_buffers @ es @ [Append Ub False])"
        using good_new_buffers by (simp_all add: good_def lock_discipline_append fail)
      with run show ?thesis by auto
    qed
  qed
qed

lemma lines_of_new_buffers: "lines_of new_buffers = []"
  by (simp add: new_buffers_def)












lemma extends_refl: "extends tr tr"
  by (simp add: extends_def lock_discipline_def)

lemma extends_trans: "extends a b \<Longrightarrow> extends b c \<Longrightarrow> extends a c"
  unfolding extends_def using lock_discipline_append by fastforce

lemma extends_free: "list_all lock_free es \<Longrightarrow> extends tr (tr @ es)"
  by (auto simp: extends_def lock_discipline_free)

lemma extends_generate: "extends tr (snd (prometheus_generate_metrics ok sw cfg uwsgi tr))"
  using generate_lock[of ok sw cfg uwsgi tr] by (simp add: extends_def)

lemma extends_write: "extends tr (snd (write_client ok bytes c tr))"
  by (auto simp: write_client_def lock_free_def intro!: extends_free)

lemma extends_close: "extends tr (snd (close_client c w tr))"
  by (auto simp: close_client_def lock_free_def intro!: extends_free)

lemma extends_host_call: "lock_free (e (ok (length tr))) \<Longrightarrow> extends tr (snd (host_call ok e tr))"
  by (auto simp: host_call_def intro!: extends_free)

lemma extends_append_unchecked: "extends tr (snd (append_unchecked ok b buf d tr))"
  by (auto simp: append_unchecked_def uwsgi_buffer_append_def lock_free_def intro!: extends_free)

lemma extends_appends_unchecked: "extends tr (snd (appends_unchecked ok b buf ds tr))"
proof (induction ds arbitrary: buf tr)
  case Nil
  show ?case by (simp add: extends_refl)
next
  case (Cons d ds)
  obtain buf' tr1 where a: "append_unchecked ok b buf d tr = (buf', tr1)"
    by (cases "append_unchecked ok b buf d tr")
  with extends_append_unchecked[of tr ok b buf d] have "extends tr tr1" by simp
  moreover from Cons.IH[where buf = buf' and tr = tr1] have "extends tr1 (snd (appends_unchecked ok b buf' ds tr1))" .
  ultimately show ?case using a by (simp add: extends_trans)
qed

lemma extends_step: "extends tr (tr @ es) \<Longrightarrow> extends (tr @ es) tr' \<Longrightarrow> extends tr tr'"
  by (rule extends_trans)

lemma lock_free_simps:
  "lock_free (Accept x)" "lock_free (Errno x)" "lock_free Read_request" "lock_free (Select x)" "lock_free Log"
  "lock_free (Buffer_new b y)" "lock_free (Prepare_headers s x)" "lock_free (Write_body s x)"
  "lock_free (Add_content_type s x)" "lock_free (Add_content_length n x)" "lock_free Close_client"
  by (simp_all add: lock_free_def)

lemma extends_accept_failed: "extends tr (snd (accept_failed ok w tr))"
  by (simp add: accept_failed_def extends_free lock_free_simps)

lemma extends_handle_request:
  "extends tr (snd (prometheus_server_handle_request ok sw cfg uwsgi w tr))"
proof (cases "backlog w")
  case Nil
  then show ?thesis
    by (simp add: prometheus_server_handle_request_def extends_accept_failed)
next
  case (Cons c cs)
  let ?tr1 = "tr @ [Accept True, Read_request]"
  let ?w1 = "w\<lparr>backlog := cs\<rparr>"
  have e1: "extends tr ?tr1" by (simp add: extends_free lock_free_simps)
  have cl: "extends tr (snd (close_client c' ?w1 t))" if "extends tr t" for c' t
    using that extends_close[of t c' ?w1] by (rule extends_trans)
  show ?thesis
  proof (cases "ok (length tr)")
    case False
    with Cons show ?thesis
      by (simp add: prometheus_server_handle_request_def extends_accept_failed)
  next
    case acc: True
    show ?thesis
    proof (cases "rlen (request c) \<le> 0")
      case True
      with cl[OF e1] Cons acc show ?thesis by (simp add: prometheus_server_handle_request_def)
    next
      case rd: False
      obtain r tr2 where g: "prometheus_generate_metrics ok sw cfg uwsgi ?tr1 = (r, tr2)"
        by (cases "prometheus_generate_metrics ok sw cfg uwsgi ?tr1")
      with extends_generate[of ?tr1 ok sw cfg uwsgi] e1 have e2: "extends tr tr2"
        by (auto intro: extends_trans)
      show ?thesis
      proof (cases r)
        case None
        obtain c1 tr3 where wc: "write_client ok error_response c tr2 = (c1, tr3)"
          by (cases "write_client ok error_response c tr2")
        with extends_write[of tr2 ok error_response c] e2 have "extends tr tr3"
          by (auto intro: extends_trans)
        from cl[OF this] Cons acc rd g None wc show ?thesis
          by (simp add: prometheus_server_handle_request_def)
      next
        case (Some m)
        show ?thesis
        proof (cases "ok (length tr2)")
          case False
          have "extends tr (tr2 @ [Buffer_new Response False])"
            using e2 extends_free[of "[Buffer_new Response False]" tr2]
            by (auto intro: extends_trans simp: lock_free_simps)
          from cl[OF this] Cons acc rd g Some False show ?thesis
            by (simp add: prometheus_server_handle_request_def)
        next
          case True
          let ?ds = "[''HTTP/1.0 200 OK'' @ CRLF,
                               ''Content-Type: text/plain; version=0.0.4; charset=utf-8'' @ CRLF,
                               ''Content-Length: '',
                               num64 (of_nat (length m)),
                               CRLF,
                               ''Connection: close'' @ CRLF,
                               CRLF]"
          let ?t = "tr2 @ [Buffer_new Response True]"
          have e3: "extends tr ?t"
            using e2 extends_free[of "[Buffer_new Response True]" tr2]
            by (auto intro: extends_trans simp: lock_free_simps)
          obtain resp tr3 where a: "appends_unchecked ok Response [] ?ds ?t = (resp, tr3)"
            by (cases "appends_unchecked ok Response [] ?ds ?t")
          with extends_appends_unchecked[of ?t ok Response "[]" ?ds] e3 have e4: "extends tr tr3"
            by (auto intro: extends_trans)
          obtain c1 tr4 where w1: "write_client ok resp c tr3 = (c1, tr4)"
            by (cases "write_client ok resp c tr3")
          with extends_write[of tr3 ok resp c] e4 have e5: "extends tr tr4"
            by (auto intro: extends_trans)
          obtain c2 tr5 where w2: "write_client ok m c1 tr4 = (c2, tr5)"
            by (cases "write_client ok m c1 tr4")
          with extends_write[of tr4 ok m c1] e5 have e6: "extends tr tr5"
            by (auto intro: extends_trans)
          from cl[OF e6] Cons acc rd g Some True a w1 w2 show ?thesis
            by (simp add: prometheus_server_handle_request_def del: appends_unchecked.simps)
        qed
      qed
    qed
  qed
qed

lemma extends_master_cycle:
  "extends tr (snd (prometheus_master_cycle ok sw cfg uwsgi w tr))"
proof -
  have "extends tr (tr @ [Select b])" for b by (simp add: extends_free lock_free_simps)
  then show ?thesis
    using extends_handle_request[of "tr @ [Select True]" ok sw cfg uwsgi w]
    by (auto simp: prometheus_master_cycle_def extends_refl intro: extends_trans)
qed

lemma extends_route:
  "extends tr (snd (uwsgi_routing_func_prometheus_metrics ok sw cfg uwsgi tr))"
proof (cases "\<not> has_metrics uwsgi \<or> metrics uwsgi = []")
  case True
  then show ?thesis
    by (auto simp: uwsgi_routing_func_prometheus_metrics_def host_call_def lock_free_simps
          split: bool.splits intro!: extends_free)
next
  case False
  obtain r tr1 where g: "prometheus_generate_metrics ok sw cfg uwsgi tr = (r, tr1)"
    by (cases "prometheus_generate_metrics ok sw cfg uwsgi tr")
  with extends_generate[of tr ok sw cfg uwsgi] have e1: "extends tr tr1" by simp
  have fin: "extends tr (tr1 @ es)" if "list_all lock_free es" for es
    using e1 extends_free[OF that, of tr1] by (rule extends_trans)
  show ?thesis
  proof (cases r)
    case None
    with False g show ?thesis
      using fin[of "[Log, Prepare_headers ''500 Internal Server Error'' False]"]
        fin[of "[Log, Prepare_headers ''500 Internal Server Error'' True, Write_body failed_body b]" for b]
      by (auto simp: uwsgi_routing_func_prometheus_metrics_def host_call_def lock_free_simps
            split: bool.splits)
  next
    case (Some m)
    with False g show ?thesis
      using fin[of "[Prepare_headers ''200 OK'' False]"]
        fin[of "[Prepare_headers ''200 OK'' True, Add_content_type s False]" for s]
        fin[of "[Prepare_headers ''200 OK'' True, Add_content_type s True, Add_content_length n False]" for s n]
        fin[of "[Prepare_headers ''200 OK'' True, Add_content_type s True, Add_content_length n True, Write_body m b]" for s n b]
      by (auto simp: uwsgi_routing_func_prometheus_metrics_def host_call_def lock_free_simps
            split: bool.splits)
  qed
qed

lemma translate_kept:
  "translate_segments p (map (take (sizeof_segment - 1)) (segments nm)) =
     (p @ flat_text False (map text_only (kept_segments nm)),
      join_commas (map render_label (zip label_names (filter numeric (kept_segments nm)))))"
  by (simp add: translate_segments_def kept_segments_def sizeof_segment_def Let_def)

lemma translator_fst_Some:
  assumes "fst (prometheus_format_metric_name ok nm p tr) = Some r"
  shows "r = translate_segments p (map (take (sizeof_segment - 1)) (segments nm))"
proof -
  obtain tr' where "prometheus_format_metric_name ok nm p tr = (Some r, tr')"
    using assms by (cases "prometheus_format_metric_name ok nm p tr") auto
  then show ?thesis by (rule translator_Some)
qed

lemma segments_replicate: "c \<noteq> CHR ''.'' \<Longrightarrow> segments (replicate n c) = [replicate n c]"
  by (induction n) simp_all

lemma all_always_ok: "\<forall>k. always_ok k"
  by (simp add: always_ok_def)











lemma sint_of_size: "n < 2 ^ 63 \<Longrightarrow> sint (of_nat n :: 64 word) = int n"
proof -
  assume a: "n < 2 ^ 63"
  then have "int n < 2 ^ 63" by (metis of_nat_less_iff of_nat_numeral of_nat_power)
  then have "signed_take_bit 63 (int n) = int n"
    by (intro signed_take_bit_int_eq_self) simp_all
  then show ?thesis by (simp add: signed_of_nat)
qed

lemma num64_of_size: "n < 2 ^ 63 \<Longrightarrow> num64 (of_nat n) = dec n"
  by (simp add: num64_def sint_of_size)

lemma ok_header_decimal:
  "n < 2 ^ 63 \<Longrightarrow>
   ok_header n =
     ''HTTP/1.0 200 OK'' @ CRLF @
     ''Content-Type: text/plain; version=0.0.4; charset=utf-8'' @ CRLF @
     ''Content-Length: '' @ dec n @ CRLF @
     ''Connection: close'' @ CRLF @
     CRLF"
  by (simp add: ok_header_def num64_of_size)

section \<open>The claims\<close>

subsection \<open>C1: the flat name\<close>

text \<open>
  Claim C1, as the code has it. When no append fails, \<open>prometheus_format_metric_name\<close>
  applied to \<open>worker.1.requests\<close> with prefix \<open>uwsgi_\<close> returns the flat name
  \<open>uwsgi_workerrequests\<close> with the label list \<open>[(worker, 1)]\<close>, and applied to
  \<open>core.1.2.requests\<close> it returns \<open>uwsgi_corerequests\<close> with
  \<open>[(worker, 1), (core, 2)]\<close>. In general, whenever it returns a result, the flat name
  is the prefix followed by the sanitized non-numeric segments, an underscore between two of
  them that follow each other directly and none after a numeric segment.
\<close>

theorem flat_name_joins_text_segments:
  "((\<forall>k. ok k) \<longrightarrow>
      fst (prometheus_format_metric_name ok ''worker.1.requests'' ''uwsgi_'' tr) =
        Some (''uwsgi_workerrequests'', join_commas (map render_label [(''worker'', ''1'')])) \<and>
      fst (prometheus_format_metric_name ok ''core.1.2.requests'' ''uwsgi_'' tr) =
        Some (''uwsgi_corerequests'',
              join_commas (map render_label [(''worker'', ''1''), (''core'', ''2'')]))) \<and>
   (fst (prometheus_format_metric_name ok nm p tr) = Some (flat, labs) \<longrightarrow>
      flat = p @ flat_text False (map text_only (kept_segments nm)))"
proof (intro conjI impI)
  assume ok: "\<forall>k. ok k"
  have "translate_segments ''uwsgi_'' (map (take (sizeof_segment - 1)) (segments ''worker.1.requests''))
        = (''uwsgi_workerrequests'', join_commas (map render_label [(''worker'', ''1'')]))"
    by code_simp
  with translator_all_ok[OF ok]
  show "fst (prometheus_format_metric_name ok ''worker.1.requests'' ''uwsgi_'' tr) =
        Some (''uwsgi_workerrequests'', join_commas (map render_label [(''worker'', ''1'')]))"
    by simp
  have "translate_segments ''uwsgi_'' (map (take (sizeof_segment - 1)) (segments ''core.1.2.requests''))
        = (''uwsgi_corerequests'', join_commas (map render_label [(''worker'', ''1''), (''core'', ''2'')]))"
    by code_simp
  with translator_all_ok[OF ok]
  show "fst (prometheus_format_metric_name ok ''core.1.2.requests'' ''uwsgi_'' tr) =
        Some (''uwsgi_corerequests'',
              join_commas (map render_label [(''worker'', ''1''), (''core'', ''2'')]))"
    by simp
next
  assume "fst (prometheus_format_metric_name ok nm p tr) = Some (flat, labs)"
  from translator_fst_Some[OF this, unfolded translate_kept]
  show "flat = p @ flat_text False (map text_only (kept_segments nm))"
    by simp
qed

theorem flat_name_joins_text_segments_witness:
  "(\<forall>k. always_ok k) \<and>
   fst (prometheus_format_metric_name always_ok ''worker.1.requests'' ''uwsgi_'' []) =
     Some (''uwsgi_workerrequests'', join_commas (map render_label [(''worker'', ''1'')])) \<and>
   fst (prometheus_format_metric_name always_ok ''a.b.1.c'' ''uwsgi_'' []) =
     Some (''uwsgi_a_bc'', join_commas (map render_label [(''worker'', ''1'')])) \<and>
   ''uwsgi_a_bc'' = ''uwsgi_'' @ flat_text False (map text_only (kept_segments ''a.b.1.c''))"
proof -
  note t = flat_name_joins_text_segments[where ok = always_ok and tr = "[]" and nm = "''a.b.1.c''"
      and p = "''uwsgi_''" and flat = "''uwsgi_a_bc''"
      and labs = "join_commas (map render_label [(''worker'', ''1'')])"]
  have h: "fst (prometheus_format_metric_name always_ok ''a.b.1.c'' ''uwsgi_'' []) =
     Some (''uwsgi_a_bc'', join_commas (map render_label [(''worker'', ''1'')]))"
    by code_simp
  from t all_always_ok
  have a: "fst (prometheus_format_metric_name always_ok ''worker.1.requests'' ''uwsgi_'' []) =
     Some (''uwsgi_workerrequests'', join_commas (map render_label [(''worker'', ''1'')]))"
    by blast
  from t h
  have b: "''uwsgi_a_bc'' = ''uwsgi_'' @ flat_text False (map text_only (kept_segments ''a.b.1.c''))"
    by blast
  from all_always_ok a h b show ?thesis by blast
qed

text \<open>
  The claim as written gives \<open>uwsgi_worker_requests\<close> for the first example; the code
  returns the name without the second underscore.
\<close>

theorem worker_requests_counterexample:
  "fst (prometheus_format_metric_name always_ok ''worker.1.requests'' ''uwsgi_'' []) =
     Some (''uwsgi_workerrequests'', join_commas (map render_label [(''worker'', ''1'')])) \<and>
   ''uwsgi_workerrequests'' \<noteq> ''uwsgi_worker_requests''"
  by code_simp

subsection \<open>C2: comments once per flat name\<close>

text \<open>
  Claim C2, as the code has it. In the output of a pass with \<open>HELP\<close> and \<open>TYPE\<close>
  comments enabled, during which every request of \<open>seen_names_add\<close> for memory was
  granted, the output is the sequence of the lines marked in the log, and for every flat
  name (after the \<open>_total\<close> suffix) with a sample line the \<open>HELP\<close> line and the
  \<open>TYPE\<close> line of that name occur once each, both before the first sample line of the
  name.
\<close>

theorem metadata_once_per_flat_name:
  assumes run: "fst (prometheus_generate_metrics ok sw cfg uwsgi []) = Some out"
    and h_help: "cfg_include_help cfg" and h_type: "cfg_include_type cfg"
    and mem: "Malloc False \<notin> set (snd (prometheus_generate_metrics ok sw cfg uwsgi []))"
  shows "out = concat (map render_line
                 (lines_of (snd (prometheus_generate_metrics ok sw cfg uwsgi [])))) \<and>
         (\<forall>n. list_ex (metric_for n)
                 (lines_of (snd (prometheus_generate_metrics ok sw cfg uwsgi []))) \<longrightarrow>
              metadata_once n (lines_of (snd (prometheus_generate_metrics ok sw cfg uwsgi []))))"
proof -
  obtain tr where g: "prometheus_generate_metrics ok sw cfg uwsgi [] = (Some out, tr)"
    using run by (cases "prometheus_generate_metrics ok sw cfg uwsgi []") auto
  from generate_Some[OF g] obtain es where es: "tr = new_buffers @ es" "loop_post cfg [] [] out es"
    by auto
  then have ls: "lines_of tr = lines_of es" by (simp add: lines_of_append lines_of_new_buffers)
  from es mem g have "Malloc False \<notin> set es" by simp
  moreover have "covered [] []" by (simp add: covered_def)
  ultimately obtain seen' where cov: "covered seen' (lines_of es)"
    using es(2) h_help h_type unfolding loop_post_def by fastforce
  have "metadata_once n (lines_of es)" if "list_ex (metric_for n) (lines_of es)" for n
  proof -
    from that obtain l where l: "l \<in> set (lines_of es)" "metric_for n l" by (auto simp: list_ex_iff)
    then have "line_name l = n" by (simp add: for_name)
    with l cov show ?thesis unfolding covered_def by blast
  qed
  with es ls g show ?thesis by (simp add: loop_post_def)
qed

theorem metadata_once_per_flat_name_witness:
  "fst (prometheus_generate_metrics always_ok uwsgi_starts_with metrics_prometheus_init two_workers []) =
     Some (''# HELP uwsgi_workerrequests_total worker.1.requests'' @ LF @
           ''# TYPE uwsgi_workerrequests_total counter'' @ LF @
           ''uwsgi_workerrequests_total{worker='' @ [CHR 0x22] @ ''1'' @ [CHR 0x22] @ ''} 5'' @ LF @
           ''uwsgi_workerrequests_total{worker='' @ [CHR 0x22] @ ''2'' @ [CHR 0x22] @ ''} 7'' @ LF) \<and>
   cfg_include_help metrics_prometheus_init \<and> cfg_include_type metrics_prometheus_init \<and>
   Malloc False \<notin> set (snd (prometheus_generate_metrics always_ok uwsgi_starts_with
                              metrics_prometheus_init two_workers [])) \<and>
   list_ex (metric_for ''uwsgi_workerrequests_total'')
     (lines_of (snd (prometheus_generate_metrics always_ok uwsgi_starts_with
                       metrics_prometheus_init two_workers []))) \<and>
   metadata_once ''uwsgi_workerrequests_total''
     (lines_of (snd (prometheus_generate_metrics always_ok uwsgi_starts_with
                       metrics_prometheus_init two_workers [])))"
proof -
  have 1: "fst (prometheus_generate_metrics always_ok uwsgi_starts_with metrics_prometheus_init two_workers []) =
     Some (''# HELP uwsgi_workerrequests_total worker.1.requests'' @ LF @
           ''# TYPE uwsgi_workerrequests_total counter'' @ LF @
           ''uwsgi_workerrequests_total{worker='' @ [CHR 0x22] @ ''1'' @ [CHR 0x22] @ ''} 5'' @ LF @
           ''uwsgi_workerrequests_total{worker='' @ [CHR 0x22] @ ''2'' @ [CHR 0x22] @ ''} 7'' @ LF)"
    by code_simp
  have 2: "cfg_include_help metrics_prometheus_init" and 3: "cfg_include_type metrics_prometheus_init"
    by (simp_all add: metrics_prometheus_init_def)
  have 4: "Malloc False \<notin> set (snd (prometheus_generate_metrics always_ok uwsgi_starts_with
                              metrics_prometheus_init two_workers []))"
    by code_simp
  have 5: "list_ex (metric_for ''uwsgi_workerrequests_total'')
     (lines_of (snd (prometheus_generate_metrics always_ok uwsgi_starts_with
                       metrics_prometheus_init two_workers [])))"
    by code_simp
  from metadata_once_per_flat_name[OF 1 2 3 4] 5
  have "metadata_once ''uwsgi_workerrequests_total''
     (lines_of (snd (prometheus_generate_metrics always_ok uwsgi_starts_with
                       metrics_prometheus_init two_workers [])))"
    by blast
  with 1 2 3 4 5 show ?thesis by blast
qed

text \<open>
  When the first request of \<open>seen_names_add\<close> for memory is refused, the name is not
  recorded and the next record of the same name gets the comments again.
\<close>

theorem metadata_repeated_counterexample:
  "fst (prometheus_generate_metrics (fails_at 17) uwsgi_starts_with metrics_prometheus_init two_a []) =
     Some (''# HELP uwsgi_a a'' @ LF @ ''# TYPE uwsgi_a gauge'' @ LF @ ''uwsgi_a 1'' @ LF @
           ''# HELP uwsgi_a a'' @ LF @ ''# TYPE uwsgi_a gauge'' @ LF @ ''uwsgi_a 2'' @ LF) \<and>
   cfg_include_help metrics_prometheus_init \<and> cfg_include_type metrics_prometheus_init \<and>
   length (filter (help_for ''uwsgi_a'')
     (lines_of (snd (prometheus_generate_metrics (fails_at 17) uwsgi_starts_with
                       metrics_prometheus_init two_a [])))) = 2"
  by code_simp

subsection \<open>C3: failures that abort and failures that skip\<close>

text \<open>
  Claim C3, as the code has it. A pass returns the null result exactly when one of its three
  buffers could not be created or an append to the output buffer failed, and then no buffer
  is returned; a failed append to the name buffer or the label buffer, inside
  \<open>prometheus_format_metric_name\<close> or for the \<open>_total\<close> suffix, never
  aborts the pass. When the translation of a record fails, the loop goes on with the
  records after it, the output and the set of seen names unchanged. The same holds when the
  translation succeeds and the append of the \<open>_total\<close> suffix of a counter fails: the
  failure is logged and the loop goes on with the records after it, the output and the
  set of seen names unchanged.
\<close>

theorem pass_aborts_only_on_output_failure:
  "((fst (prometheus_generate_metrics ok sw cfg uwsgi []) = None) =
      ((\<exists>b. Buffer_new b False \<in> set (snd (prometheus_generate_metrics ok sw cfg uwsgi []))) \<or>
       Append Ub False \<in> set (snd (prometheus_generate_metrics ok sw cfg uwsgi [])))) \<and>
   (um_name um = Some nm \<longrightarrow> um_value um = Some v \<longrightarrow> nm \<noteq> [] \<longrightarrow>
    \<not> (cfg_no_workers cfg \<and> sw nm ''worker.'' \<noteq> 0) \<longrightarrow>
    fst (prometheus_format_metric_name ok nm p tr) = None \<longrightarrow>
      metrics_loop ok sw cfg p (um # ums) (ub, seen) tr =
        metrics_loop ok sw cfg p ums (ub, seen)
          (snd (prometheus_format_metric_name ok nm p tr) @ [Log])) \<and>
   (um_name um = Some nm \<longrightarrow> um_value um = Some v \<longrightarrow> nm \<noteq> [] \<longrightarrow>
    \<not> (cfg_no_workers cfg \<and> sw nm ''worker.'' \<noteq> 0) \<longrightarrow>
    prometheus_format_metric_name ok nm p tr = (Some (nb, lb), tr1) \<longrightarrow> nb \<noteq> [] \<longrightarrow>
    um_type um = UWSGI_METRIC_COUNTER \<longrightarrow> \<not> ok (length tr1) \<longrightarrow>
      metrics_loop ok sw cfg p (um # ums) (ub, seen) tr =
        metrics_loop ok sw cfg p ums (ub, seen) (tr1 @ [Append Name_buf False, Log]))"
proof (intro conjI impI)
  obtain r tr0 where run: "prometheus_generate_metrics ok sw cfg uwsgi [] = (r, tr0)"
    by (cases "prometheus_generate_metrics ok sw cfg uwsgi []")
  have "(r = None) = ((\<exists>b. Buffer_new b False \<in> set tr0) \<or> Append Ub False \<in> set tr0)"
  proof (cases r)
    case (Some out)
    with run generate_Some obtain es where "tr0 = new_buffers @ es" "good es" by fastforce
    then have "(\<forall>b. Buffer_new b False \<notin> set tr0) \<and> Append Ub False \<notin> set tr0"
      by (auto simp: good_def new_buffers_def)
    with Some show ?thesis by simp
  next
    case None
    with run generate_None[of ok sw cfg uwsgi "[]" tr0] show ?thesis by auto
  qed
  with run
  show "(fst (prometheus_generate_metrics ok sw cfg uwsgi []) = None) =
      ((\<exists>b. Buffer_new b False \<in> set (snd (prometheus_generate_metrics ok sw cfg uwsgi []))) \<or>
       Append Ub False \<in> set (snd (prometheus_generate_metrics ok sw cfg uwsgi [])))"
    by simp
next
  assume a: "um_name um = Some nm" "um_value um = Some v" "nm \<noteq> []"
    "\<not> (cfg_no_workers cfg \<and> sw nm ''worker.'' \<noteq> 0)"
    "fst (prometheus_format_metric_name ok nm p tr) = None"
  obtain tr1 where "prometheus_format_metric_name ok nm p tr = (None, tr1)"
    using a(5) by (cases "prometheus_format_metric_name ok nm p tr") auto
  with a show "metrics_loop ok sw cfg p (um # ums) (ub, seen) tr =
        metrics_loop ok sw cfg p ums (ub, seen)
          (snd (prometheus_format_metric_name ok nm p tr) @ [Log])"
    by (auto simp: or_skip_def)
next
  assume a: "um_name um = Some nm" "um_value um = Some v" "nm \<noteq> []"
    "\<not> (cfg_no_workers cfg \<and> sw nm ''worker.'' \<noteq> 0)"
    "prometheus_format_metric_name ok nm p tr = (Some (nb, lb), tr1)" "nb \<noteq> []"
    "um_type um = UWSGI_METRIC_COUNTER" "\<not> ok (length tr1)"
  then show "metrics_loop ok sw cfg p (um # ums) (ub, seen) tr =
        metrics_loop ok sw cfg p ums (ub, seen) (tr1 @ [Append Name_buf False, Log])"
    by (auto simp: or_skip_def uwsgi_buffer_append_def)
qed

theorem pass_aborts_only_on_output_failure_witness:
  "fst (prometheus_generate_metrics (fails_at 3) uwsgi_starts_with metrics_prometheus_init a_b []) =
     Some (''# HELP uwsgi_b b'' @ LF @ ''# TYPE uwsgi_b gauge'' @ LF @ ''uwsgi_b 2'' @ LF) \<and>
   Append Name_buf False \<in> set (snd (prometheus_generate_metrics (fails_at 3) uwsgi_starts_with
                                        metrics_prometheus_init a_b [])) \<and>
   \<not> ((\<exists>b. Buffer_new b False \<in> set (snd (prometheus_generate_metrics (fails_at 3)
                                              uwsgi_starts_with metrics_prometheus_init a_b []))) \<or>
      Append Ub False \<in> set (snd (prometheus_generate_metrics (fails_at 3) uwsgi_starts_with
                                     metrics_prometheus_init a_b []))) \<and>
   fst (prometheus_generate_metrics (fails_at 8) uwsgi_starts_with metrics_prometheus_init a_b []) = None \<and>
   Append Ub False \<in> set (snd (prometheus_generate_metrics (fails_at 8) uwsgi_starts_with
                                  metrics_prometheus_init a_b [])) \<and>
   fst (prometheus_format_metric_name (fails_at 3) ''a'' ''uwsgi_'' new_buffers) = None \<and>
   metrics_loop (fails_at 3) uwsgi_starts_with metrics_prometheus_init ''uwsgi_''
       (metrics a_b) ([], []) new_buffers =
     metrics_loop (fails_at 3) uwsgi_starts_with metrics_prometheus_init ''uwsgi_''
       (tl (metrics a_b)) ([], [])
       (snd (prometheus_format_metric_name (fails_at 3) ''a'' ''uwsgi_'' new_buffers) @ [Log]) \<and>
   prometheus_format_metric_name (fails_at 5) ''a'' ''uwsgi_'' new_buffers =
     (Some (''uwsgi_a'', []), new_buffers @ [Append Name_buf True, Append Name_buf True]) \<and>
   um_type (hd (metrics a_b)) = UWSGI_METRIC_COUNTER \<and>
   \<not> fails_at 5 (length (new_buffers @ [Append Name_buf True, Append Name_buf True])) \<and>
   metrics_loop (fails_at 5) uwsgi_starts_with metrics_prometheus_init ''uwsgi_''
       (metrics a_b) ([], []) new_buffers =
     metrics_loop (fails_at 5) uwsgi_starts_with metrics_prometheus_init ''uwsgi_''
       (tl (metrics a_b)) ([], [])
       ((new_buffers @ [Append Name_buf True, Append Name_buf True]) @ [Append Name_buf False, Log])"
proof -
  note t = pass_aborts_only_on_output_failure[where sw = uwsgi_starts_with
      and cfg = metrics_prometheus_init and uwsgi = a_b]
  have 1: "fst (prometheus_generate_metrics (fails_at 3) uwsgi_starts_with metrics_prometheus_init a_b []) =
     Some (''# HELP uwsgi_b b'' @ LF @ ''# TYPE uwsgi_b gauge'' @ LF @ ''uwsgi_b 2'' @ LF)"
    by code_simp
  have 2: "Append Name_buf False \<in> set (snd (prometheus_generate_metrics (fails_at 3) uwsgi_starts_with
                                        metrics_prometheus_init a_b []))"
    by code_simp
  from t[where ok = "fails_at 3"] 1
  have 3: "\<not> ((\<exists>b. Buffer_new b False \<in> set (snd (prometheus_generate_metrics (fails_at 3)
                                              uwsgi_starts_with metrics_prometheus_init a_b []))) \<or>
      Append Ub False \<in> set (snd (prometheus_generate_metrics (fails_at 3) uwsgi_starts_with
                                     metrics_prometheus_init a_b [])))"
    by simp
  have 4: "Append Ub False \<in> set (snd (prometheus_generate_metrics (fails_at 8) uwsgi_starts_with
                                  metrics_prometheus_init a_b []))"
    by code_simp
  from t[where ok = "fails_at 8"] 4
  have 5: "fst (prometheus_generate_metrics (fails_at 8) uwsgi_starts_with metrics_prometheus_init a_b []) = None"
    by blast
  have 6: "fst (prometheus_format_metric_name (fails_at 3) ''a'' ''uwsgi_'' new_buffers) = None"
    by code_simp
  have 7: "um_name (hd (metrics a_b)) = Some ''a''" "um_value (hd (metrics a_b)) = Some 1"
    "''a'' \<noteq> []" "\<not> (cfg_no_workers metrics_prometheus_init \<and> uwsgi_starts_with ''a'' ''worker.'' \<noteq> 0)"
    "metrics a_b = hd (metrics a_b) # tl (metrics a_b)"
    by (simp_all add: a_b_def metrics_prometheus_init_def)
  from t[where ok = "fails_at 3" and um = "hd (metrics a_b)" and nm = "''a''" and v = 1
      and p = "''uwsgi_''" and tr = new_buffers and ums = "tl (metrics a_b)" and ub = "[]"
      and seen = "[]"] 6 7
  have 8: "metrics_loop (fails_at 3) uwsgi_starts_with metrics_prometheus_init ''uwsgi_''
       (metrics a_b) ([], []) new_buffers =
     metrics_loop (fails_at 3) uwsgi_starts_with metrics_prometheus_init ''uwsgi_''
       (tl (metrics a_b)) ([], [])
       (snd (prometheus_format_metric_name (fails_at 3) ''a'' ''uwsgi_'' new_buffers) @ [Log])"
    by metis
  have 9: "prometheus_format_metric_name (fails_at 5) ''a'' ''uwsgi_'' new_buffers =
     (Some (''uwsgi_a'', []), new_buffers @ [Append Name_buf True, Append Name_buf True])"
    by code_simp
  have 10: "um_type (hd (metrics a_b)) = UWSGI_METRIC_COUNTER" "''uwsgi_a'' \<noteq> []"
    "\<not> fails_at 5 (length (new_buffers @ [Append Name_buf True, Append Name_buf True]))"
    by (simp_all add: a_b_def fails_at_def new_buffers_def)
  from t[where ok = "fails_at 5" and um = "hd (metrics a_b)" and nm = "''a''" and v = 1
      and p = "''uwsgi_''" and tr = new_buffers and ums = "tl (metrics a_b)" and ub = "[]"
      and seen = "[]" and nb = "''uwsgi_a''" and lb = "[]"
      and ?tr1.0 = "new_buffers @ [Append Name_buf True, Append Name_buf True]"] 7 9 10
  have 11: "metrics_loop (fails_at 5) uwsgi_starts_with metrics_prometheus_init ''uwsgi_''
       (metrics a_b) ([], []) new_buffers =
     metrics_loop (fails_at 5) uwsgi_starts_with metrics_prometheus_init ''uwsgi_''
       (tl (metrics a_b)) ([], [])
       ((new_buffers @ [Append Name_buf True, Append Name_buf True]) @ [Append Name_buf False, Log])"
    by metis
  from 1 2 3 5 4 6 8 9 10 11 show ?thesis by blast
qed

text \<open>
  The append of the \<open>_total\<close> suffix is an append of the pass itself. When it fails for
  the first record, the pass still returns a buffer, the one without that record.
\<close>

theorem suffix_failure_counterexample:
  "fst (prometheus_generate_metrics (fails_at 5) uwsgi_starts_with metrics_prometheus_init a_b []) =
     Some (''# HELP uwsgi_b b'' @ LF @ ''# TYPE uwsgi_b gauge'' @ LF @ ''uwsgi_b 2'' @ LF) \<and>
   snd (prometheus_generate_metrics (fails_at 5) uwsgi_starts_with metrics_prometheus_init a_b []) ! 5 =
     Append Name_buf False \<and>
   take 5 (snd (prometheus_generate_metrics (fails_at 5) uwsgi_starts_with metrics_prometheus_init a_b [])) =
     [Buffer_new Ub True, Buffer_new Name_buf True, Buffer_new Labels_buf True,
      Append Name_buf True, Append Name_buf True]"
  by code_simp

subsection \<open>C4: the length of a segment\<close>

text \<open>
  Claim C4, as the code has it. For every dotted name, \<open>prometheus_format_metric_name\<close>
  keeps the first 255 bytes of each segment and drops every character after them: its
  result, whenever it returns one, is the translation of the segments cut to 255 bytes,
  and it returns that result when no append fails.
\<close>

theorem segment_kept_255:
  "((\<forall>k. ok k) \<longrightarrow>
      fst (prometheus_format_metric_name ok nm p tr) =
        Some (translate_segments p (map (take 255) (segments nm)))) \<and>
   (fst (prometheus_format_metric_name ok nm p tr) = Some r \<longrightarrow>
      r = translate_segments p (map (take 255) (segments nm)))"
  using translator_all_ok[of ok nm p tr] translator_fst_Some[of ok nm p tr r]
  by (simp add: sizeof_segment_def)

theorem segment_kept_255_witness:
  "(\<forall>k. always_ok k) \<and>
   fst (prometheus_format_metric_name always_ok (replicate 300 (CHR ''x'')) ''uwsgi_'' []) =
     Some (translate_segments ''uwsgi_'' (map (take 255) (segments (replicate 300 (CHR ''x''))))) \<and>
   translate_segments ''uwsgi_'' (map (take 255) (segments (replicate 300 (CHR ''x'')))) =
     (''uwsgi_'' @ replicate 255 (CHR ''x''), [])"
proof -
  from segment_kept_255[where ok = always_ok and nm = "replicate 300 (CHR ''x'')"
      and p = "''uwsgi_''" and tr = "[]"] all_always_ok
  have a: "fst (prometheus_format_metric_name always_ok (replicate 300 (CHR ''x'')) ''uwsgi_'' []) =
     Some (translate_segments ''uwsgi_'' (map (take 255) (segments (replicate 300 (CHR ''x'')))))"
    by blast
  have n: "\<not> numeric (replicate 255 (CHR ''x''))"
    by (simp add: numeric_def is_digit_def list_all_iff)
  have s: "sanitize (CHR ''x'') = CHR ''x''"
    by (simp add: sanitize_def is_lower_def)
  have b: "translate_segments ''uwsgi_'' (map (take 255) (segments (replicate 300 (CHR ''x'')))) =
     (''uwsgi_'' @ replicate 255 (CHR ''x''), [])"
    by (simp add: translate_segments_def segments_replicate s n text_only_def)
  from all_always_ok a b show ?thesis by blast
qed

text \<open>A segment of 256 bytes loses its last byte.\<close>

theorem segment_256_counterexample:
  "fst (prometheus_format_metric_name always_ok (replicate 256 (CHR ''a'')) ''uwsgi_'' []) =
     Some (''uwsgi_'' @ replicate 255 (CHR ''a''), []) \<and>
   ''uwsgi_'' @ replicate 255 (CHR ''a'') \<noteq> ''uwsgi_'' @ take 256 (replicate 256 (CHR ''a''))"
proof -
  have t: "text_only (replicate 255 (CHR ''a'')) = Some (replicate 255 (CHR ''a''))"
    by (simp add: text_only_def numeric_def is_digit_def list_all_iff)
  have n: "\<not> numeric (replicate 255 (CHR ''a''))"
    by (simp add: numeric_def is_digit_def list_all_iff)
  have s: "sanitize (CHR ''a'') = CHR ''a''"
    by (simp add: sanitize_def is_lower_def)
  have "translate_segments ''uwsgi_'' (map (take (sizeof_segment - 1)) (segments (replicate 256 (CHR ''a''))))
        = (''uwsgi_'' @ replicate 255 (CHR ''a''), [])"
    by (simp add: translate_segments_def segments_replicate sizeof_segment_def s t n)
  with translator_all_ok[OF all_always_ok, of "replicate 256 (CHR ''a'')" "''uwsgi_''" "[]"]
  have "fst (prometheus_format_metric_name always_ok (replicate 256 (CHR ''a'')) ''uwsgi_'' []) =
     Some (''uwsgi_'' @ replicate 255 (CHR ''a''), [])" by simp
  moreover have "length (replicate 255 (CHR ''a'')) \<noteq> length (take 256 (replicate 256 (CHR ''a'')))"
    by simp
  then have "replicate 255 (CHR ''a'') \<noteq> take 256 (replicate 256 (CHR ''a''))" by metis
  ultimately show ?thesis by simp
qed

subsection \<open>C5: the lock\<close>

text \<open>
  Claim C5. In every pass the lock is taken in shared mode only, and each acquisition spans
  the read of one value and nothing else: no append, no log message, no step of the
  iteration and no socket call happens while it is held. This holds for the log of a pass
  alone, and for the logs of the route handler and of one cycle of the dedicated server,
  which hold the calls made before and after the pass.
\<close>

theorem lock_spans_one_read:
  "lock_discipline (snd (prometheus_generate_metrics ok sw cfg uwsgi [])) \<and>
   lock_discipline (snd (uwsgi_routing_func_prometheus_metrics ok sw cfg uwsgi [])) \<and>
   lock_discipline (snd (prometheus_master_cycle ok sw cfg uwsgi w []))"
  using extends_generate[of "[]" ok sw cfg uwsgi] extends_route[of "[]" ok sw cfg uwsgi]
    extends_master_cycle[of "[]" ok sw cfg uwsgi w]
  by (simp add: extends_def)

theorem lock_spans_one_read_witness:
  "lock_discipline (snd (prometheus_generate_metrics always_ok uwsgi_starts_with
                           metrics_prometheus_init two_workers [])) \<and>
   count_list (snd (prometheus_generate_metrics always_ok uwsgi_starts_with
                      metrics_prometheus_init two_workers [])) (Lock Shared) = 2 \<and>
   count_list (snd (prometheus_generate_metrics always_ok uwsgi_starts_with
                      metrics_prometheus_init two_workers [])) Read_value = 2 \<and>
   lock_discipline (snd (uwsgi_routing_func_prometheus_metrics always_ok uwsgi_starts_with
                           metrics_prometheus_init two_workers [])) \<and>
   lock_discipline (snd (prometheus_master_cycle always_ok uwsgi_starts_with bound two_workers
                           \<lparr>backlog = [scrape], closed = []\<rparr> []))"
proof -
  note t = lock_spans_one_read[where ok = always_ok and sw = uwsgi_starts_with
      and uwsgi = two_workers and w = "\<lparr>backlog = [scrape], closed = []\<rparr>"]
  have c: "count_list (snd (prometheus_generate_metrics always_ok uwsgi_starts_with
                      metrics_prometheus_init two_workers [])) (Lock Shared) = 2"
    "count_list (snd (prometheus_generate_metrics always_ok uwsgi_starts_with
                      metrics_prometheus_init two_workers [])) Read_value = 2"
    by code_simp+
  from t[where cfg = metrics_prometheus_init] t[where cfg = bound] c show ?thesis by blast
qed

subsection \<open>C6: numeric segments\<close>

text \<open>
  Claim C6, as the code has it. For every dotted name, take its segments cut to 255 bytes.
  The first four numeric ones (not empty, digits only), from left to right, become the labels
  \<open>worker\<close>, \<open>core\<close>, \<open>thread\<close> and \<open>id\<close> with the text of the segment, as cut,
  as value; a numeric segment after the fourth gives no label; no numeric segment puts a
  character into the flat name, it only keeps the underscore from being put before the text
  segment that follows it; the labels are in the order of the segments.
\<close>

theorem numeric_segments_become_labels:
  "((\<forall>k. ok k) \<longrightarrow> fst (prometheus_format_metric_name ok nm p tr) \<noteq> None) \<and>
   (fst (prometheus_format_metric_name ok nm p tr) = Some (flat, labs) \<longrightarrow>
      labs = join_commas (map render_label
               (zip [''worker'', ''core'', ''thread'', ''id''] (filter numeric (kept_segments nm)))) \<and>
      flat = p @ flat_text False (map text_only (kept_segments nm)))"
proof (intro conjI impI)
  assume "\<forall>k. ok k"
  from translator_all_ok[OF this] show "fst (prometheus_format_metric_name ok nm p tr) \<noteq> None"
    by simp
next
  assume a: "fst (prometheus_format_metric_name ok nm p tr) = Some (flat, labs)"
  from translator_fst_Some[OF a, unfolded translate_kept]
  show "labs = join_commas (map render_label
               (zip [''worker'', ''core'', ''thread'', ''id''] (filter numeric (kept_segments nm))))"
    by (simp add: label_names_def)
  from translator_fst_Some[OF a, unfolded translate_kept]
  show "flat = p @ flat_text False (map text_only (kept_segments nm))"
    by simp
qed

theorem numeric_segments_become_labels_witness:
  "(\<forall>k. always_ok k) \<and>
   fst (prometheus_format_metric_name always_ok ''a.10.2.3.4.5.b'' ''uwsgi_'' []) =
     Some (''uwsgi_ab'',
           join_commas (map render_label
             [(''worker'', ''10''), (''core'', ''2''), (''thread'', ''3''), (''id'', ''4'')])) \<and>
   filter numeric (kept_segments ''a.10.2.3.4.5.b'') = [''10'', ''2'', ''3'', ''4'', ''5''] \<and>
   join_commas (map render_label
       [(''worker'', ''10''), (''core'', ''2''), (''thread'', ''3''), (''id'', ''4'')]) =
     join_commas (map render_label
       (zip [''worker'', ''core'', ''thread'', ''id''] (filter numeric (kept_segments ''a.10.2.3.4.5.b'')))) \<and>
   ''uwsgi_ab'' = ''uwsgi_'' @ flat_text False (map text_only (kept_segments ''a.10.2.3.4.5.b''))"
proof -
  note t = numeric_segments_become_labels[where ok = always_ok and nm = "''a.10.2.3.4.5.b''"
      and p = "''uwsgi_''" and tr = "[]" and flat = "''uwsgi_ab''"
      and labs = "join_commas (map render_label
             [(''worker'', ''10''), (''core'', ''2''), (''thread'', ''3''), (''id'', ''4'')])"]
  have h: "fst (prometheus_format_metric_name always_ok ''a.10.2.3.4.5.b'' ''uwsgi_'' []) =
     Some (''uwsgi_ab'',
           join_commas (map render_label
             [(''worker'', ''10''), (''core'', ''2''), (''thread'', ''3''), (''id'', ''4'')]))"
    by code_simp
  have f: "filter numeric (kept_segments ''a.10.2.3.4.5.b'') = [''10'', ''2'', ''3'', ''4'', ''5'']"
    by code_simp
  from t h have
    "join_commas (map render_label
       [(''worker'', ''10''), (''core'', ''2''), (''thread'', ''3''), (''id'', ''4'')]) =
     join_commas (map render_label
       (zip [''worker'', ''core'', ''thread'', ''id''] (filter numeric (kept_segments ''a.10.2.3.4.5.b''))))"
    "''uwsgi_ab'' = ''uwsgi_'' @ flat_text False (map text_only (kept_segments ''a.10.2.3.4.5.b''))"
    by blast+
  with all_always_ok h f show ?thesis by blast
qed

text \<open>
  A numeric segment of 256 digits gives a label whose value has 255 digits, not the text of
  the segment.
\<close>

theorem long_numeric_segment_counterexample:
  "fst (prometheus_format_metric_name always_ok (replicate 256 (CHR ''7'')) ''uwsgi_'' []) =
     Some (''uwsgi_'', render_label (''worker'', replicate 255 (CHR ''7''))) \<and>
   render_label (''worker'', replicate 255 (CHR ''7'')) \<noteq>
     render_label (''worker'', replicate 256 (CHR ''7''))"
proof -
  have n: "numeric (replicate 255 (CHR ''7''))"
    by (simp add: numeric_def is_digit_def list_all_iff)
  have s: "sanitize (CHR ''7'') = CHR ''7''"
    by (simp add: sanitize_def is_digit_def)
  have "translate_segments ''uwsgi_'' (map (take (sizeof_segment - 1)) (segments (replicate 256 (CHR ''7''))))
        = (''uwsgi_'', render_label (''worker'', replicate 255 (CHR ''7'')))"
    by (simp add: translate_segments_def segments_replicate sizeof_segment_def s n text_only_def
          label_names_def)
  with translator_all_ok[OF all_always_ok, of "replicate 256 (CHR ''7'')" "''uwsgi_''" "[]"]
  have "fst (prometheus_format_metric_name always_ok (replicate 256 (CHR ''7'')) ''uwsgi_'' []) =
     Some (''uwsgi_'', render_label (''worker'', replicate 255 (CHR ''7'')))" by simp
  moreover have "length (render_label (''worker'', replicate 255 (CHR ''7''))) \<noteq>
     length (render_label (''worker'', replicate 256 (CHR ''7'')))"
    by (simp add: render_label_def)
  then have "render_label (''worker'', replicate 255 (CHR ''7'')) \<noteq>
     render_label (''worker'', replicate 256 (CHR ''7''))" by metis
  ultimately show ?thesis by simp
qed

subsection \<open>C7: no metrics\<close>

text \<open>
  Claim C7, as the code has it. If the registry is absent or metrics are disabled, a pass
  whose three buffers could be created returns an empty buffer and not the null result; when
  one of the three buffers cannot be created it returns the null result, as it does with
  metrics enabled.
\<close>

theorem unavailable_returns_empty_buffer:
  "\<not> has_metrics uwsgi \<or> metrics uwsgi = [] \<Longrightarrow>
   fst (prometheus_generate_metrics ok sw cfg uwsgi []) =
     (if ok 0 \<and> ok 1 \<and> ok 2 then Some [] else None)"
  by (auto simp: prometheus_generate_metrics_def Let_def numeral_2_eq_2)

theorem unavailable_returns_empty_buffer_witness:
  "\<not> has_metrics disabled \<and> metrics disabled = [] \<and>
   always_ok 0 \<and> always_ok 1 \<and> always_ok 2 \<and>
   fst (prometheus_generate_metrics always_ok uwsgi_starts_with metrics_prometheus_init disabled []) =
     Some []"
proof -
  have h: "\<not> has_metrics disabled \<or> metrics disabled = []" by (simp add: disabled_def)
  have k: "always_ok 0" "always_ok 1" "always_ok 2" by (simp_all add: always_ok_def)
  from unavailable_returns_empty_buffer[OF h, of always_ok uwsgi_starts_with metrics_prometheus_init] k
  have "fst (prometheus_generate_metrics always_ok uwsgi_starts_with metrics_prometheus_init disabled []) =
     Some []" by simp
  with k show ?thesis by (simp add: disabled_def)
qed

text \<open>With metrics disabled, a pass whose output buffer cannot be created returns null.\<close>

theorem unavailable_null_counterexample:
  "\<not> has_metrics disabled \<and>
   prometheus_generate_metrics (fails_at 0) uwsgi_starts_with metrics_prometheus_init disabled [] =
     (None, [Buffer_new Ub False, Log])"
  by code_simp

subsection \<open>C8: the route handler\<close>

text \<open>
  Claim C8, as the code has it. Whenever metrics are disabled or the registry is absent, the
  route handler logs, prepares the status \<open>503 Service Unavailable\<close> and, unless the host
  refuses that status, writes the fixed body; it makes no other call, so the pass, which
  starts by creating a buffer, is not run. On every outcome the handler returns
  \<open>UWSGI_ROUTE_BREAK\<close>.
\<close>

theorem route_unavailable_503:
  "(\<not> has_metrics uwsgi \<or> metrics uwsgi = [] \<longrightarrow>
      uwsgi_routing_func_prometheus_metrics ok sw cfg uwsgi tr =
        (UWSGI_ROUTE_BREAK,
         tr @ [Log, Prepare_headers ''503 Service Unavailable'' (ok (Suc (length tr)))] @
           (if ok (Suc (length tr))
            then [Write_body unavailable_body (ok (Suc (Suc (length tr))))] else []))) \<and>
   fst (uwsgi_routing_func_prometheus_metrics ok sw cfg uwsgi tr) = UWSGI_ROUTE_BREAK"
  by (auto simp: uwsgi_routing_func_prometheus_metrics_def host_call_def
        split: bool.splits prod.splits option.splits)

theorem route_unavailable_503_witness:
  "\<not> has_metrics disabled \<and> metrics disabled = [] \<and>
   uwsgi_routing_func_prometheus_metrics always_ok uwsgi_starts_with metrics_prometheus_init disabled [] =
     (UWSGI_ROUTE_BREAK,
      [Log, Prepare_headers ''503 Service Unavailable'' True, Write_body unavailable_body True]) \<and>
   fst (uwsgi_routing_func_prometheus_metrics always_ok uwsgi_starts_with metrics_prometheus_init
          two_workers []) = UWSGI_ROUTE_BREAK \<and>
   fst (uwsgi_routing_func_prometheus_metrics (fails_at 8) uwsgi_starts_with metrics_prometheus_init
          two_workers []) = UWSGI_ROUTE_BREAK"
proof -
  have h: "\<not> has_metrics disabled \<or> metrics disabled = []" by (simp add: disabled_def)
  from route_unavailable_503[where uwsgi = disabled and ok = always_ok and sw = uwsgi_starts_with
      and cfg = metrics_prometheus_init and tr = "[]"] h
  have "uwsgi_routing_func_prometheus_metrics always_ok uwsgi_starts_with metrics_prometheus_init disabled [] =
     (UWSGI_ROUTE_BREAK,
      [Log, Prepare_headers ''503 Service Unavailable'' True, Write_body unavailable_body True])"
    by (simp add: always_ok_def)
  moreover have "\<not> has_metrics disabled" "metrics disabled = []"
    by (simp_all add: disabled_def)
  ultimately show ?thesis
    using route_unavailable_503[where uwsgi = two_workers and sw = uwsgi_starts_with
      and cfg = metrics_prometheus_init and tr = "[]"]
    by blast
qed

text \<open>When the host refuses the status line, the handler returns without writing the body.\<close>

theorem route_headers_refused_counterexample:
  "\<not> has_metrics disabled \<and>
   uwsgi_routing_func_prometheus_metrics (fails_at 1) uwsgi_starts_with metrics_prometheus_init
     disabled [] =
   (UWSGI_ROUTE_BREAK, [Log, Prepare_headers ''503 Service Unavailable'' False])"
  by code_simp

subsection \<open>C9: one connection per cycle\<close>




subsection \<open>C10: the declared length of the body\<close>

text \<open>
  Claim C10 at the response for a failed pass. A client sends its request, and the first
  append to the output buffer fails, so the pass returns null. The server answers with
  the fixed response of lines 365-370, which declares \<open>Content-Length: 28\<close>; the body
  after the blank line, \<open>Failed to generate metrics\<close> and a newline, has 27 bytes.
\<close>

theorem error_response_length_mismatch:
  "closed (fst (prometheus_server_handle_request (fails_at 7) uwsgi_starts_with
                  metrics_prometheus_init one_gauge
                  \<lparr>backlog = [\<lparr>request = Data ''GET /metrics HTTP/1.0'', received = []\<rparr>],
                   closed = []\<rparr> [])) =
     [\<lparr>request = Data ''GET /metrics HTTP/1.0'',
       received = ''HTTP/1.0 500 Internal Server Error'' @ CRLF @
                  ''Content-Type: text/plain'' @ CRLF @
                  ''Content-Length: 28'' @ CRLF @ CRLF @ failed_body\<rparr>] \<and>
   length failed_body = 27"
  by code_simp

end
